theory Spec2Isabelle
  imports Main "HOL-Library.Word"
begin

section \<open>The crash target of gdb: data model\<close>

text \<open>
  The repository holds two variants of \<^verbatim>\<open>crash_target.c\<close>: the per-task variant
  (\<^verbatim>\<open>src/crash_target.c\<close>, one gdb thread showing the task crash has selected) and the
  per-CPU variant (\<^verbatim>\<open>src/unnamed/part_000\<close>, one gdb thread per CPU).  Both are embedded
  here.  gdb and crash themselves are outside the repository: their functions appear as
  parameters (the crash primitives) or as small state updates on the part of gdb's state
  that the target can observe.
\<close>

type_synonym byte = "8 word"
type_synonym ulong = "64 word"

text \<open>The C truth values returned by \<^verbatim>\<open>gdb_change_thread_context\<close>.\<close>

definition TRUE :: int where
  "TRUE = 1"

definition FALSE :: int where
  "FALSE = 0"

text \<open>
  gdb's \<^verbatim>\<open>error (...)\<close> throws; a thrown error is a value carrying its message.
  The only error the target raises itself is the one of \<^verbatim>\<open>fetch_registers\<close>.
\<close>

datatype exn = gdb_error string

definition ConfigurationError :: exn where
  "ConfigurationError =
     gdb_error ''fatal error: buffer size is not enough to fit register value''"

text \<open>
  The architecture description (\<^verbatim>\<open>struct gdbarch\<close>) as far as the target reads it:
  the number of raw registers, their names and their sizes.  \<^verbatim>\<open>register_size\<close>
  returns a C \<^verbatim>\<open>int\<close>, kept as a 32-bit word and read with \<open>sint\<close>.
\<close>

record gdbarch =
  gdbarch_num_regs :: int
  gdbarch_register_name :: "int \<Rightarrow> string"
  register_size :: "int \<Rightarrow> 32 word"

text \<open>
  A register cache: its architecture and, per register number, the status of the raw
  register.  \<open>None\<close> is gdb's \<^verbatim>\<open>REG_UNKNOWN\<close> (never supplied, or stale after
  \<^verbatim>\<open>registers_changed\<close>).
\<close>

datatype reg_entry = REG_VALID "byte list" | REG_UNAVAILABLE

record regcache =
  arch :: gdbarch
  regs :: "int \<rightharpoonup> reg_entry"

text \<open>
  Modelled from the spec: \<^verbatim>\<open>regcache::raw_supply\<close> is gdb's and not part of the
  repository.  Section 4.1 of the specification fixes what the target relies on: supplying a
  buffer marks the register present with \<^verbatim>\<open>register_size\<close> bytes of it, supplying
  \<^verbatim>\<open>NULL\<close> marks it explicitly unavailable; no other register is touched.
\<close>

definition raw_supply :: "regcache \<Rightarrow> int \<Rightarrow> byte list option \<Rightarrow> regcache" where
  "raw_supply rc r buf =
     rc\<lparr>regs := (regs rc)(r \<mapsto>
        (case buf of
           Some b \<Rightarrow> REG_VALID (take (nat (sint (register_size (arch rc) r))) b)
         | None \<Rightarrow> REG_UNAVAILABLE))\<rparr>"

section \<open>Register fetch\<close>

text \<open>
  A per-register read primitive of crash (\<^verbatim>\<open>crash_get_current_task_reg\<close>, or
  \<^verbatim>\<open>crash_get_cpu_reg\<close> at a fixed CPU): from the register number, name, size and the
  scratch buffer as it stands, the return code and the buffer as the primitive leaves it.
\<close>

type_synonym reg_primitive = "int \<Rightarrow> string \<Rightarrow> 32 word \<Rightarrow> byte list \<Rightarrow> int \<times> byte list"

text \<open>
  What one run of \<^verbatim>\<open>fetch_registers\<close> works on: the register cache it was handed, the
  local buffer \<^verbatim>\<open>gdb_byte regval[16]\<close>, and the calls of the read primitive made so
  far, in call order: the register number, the return code and the buffer as the call left
  it.
\<close>

record fetch_state =
  fs_cache :: regcache
  fs_regval :: "byte list"
  fs_calls :: "(int \<times> int \<times> byte list) list"

text \<open>
  \<^verbatim>\<open>regsize > sizeof (regval)\<close> compares an \<^verbatim>\<open>int\<close> with a \<^verbatim>\<open>size_t\<close>: the
  \<^verbatim>\<open>int\<close> is converted to the 64-bit unsigned type first, so a negative size counts
  as too large as well.
\<close>

definition exceeds_regval :: "32 word \<Rightarrow> bool" where
  "exceeds_regval regsize \<longleftrightarrow> 16 < sint regsize mod 2 ^ 64"

text \<open>
  The body of the loop of \<^verbatim>\<open>fetch_registers\<close>, the same text in both variants up to
  the primitive called: \<open>Inl\<close> when \<^verbatim>\<open>error\<close> is thrown.
\<close>

definition fetch_body :: "reg_primitive \<Rightarrow> gdbarch \<Rightarrow> int \<Rightarrow> fetch_state \<Rightarrow> exn + fetch_state" where
  "fetch_body get_reg a r fs =
     (let regname = gdbarch_register_name a r;
          regsize = register_size a r
      in if exceeds_regval regsize then Inl ConfigurationError
         else (case get_reg r regname regsize (fs_regval fs) of
                 (ret, regval) \<Rightarrow>
                   if ret \<noteq> 0
                   then Inr \<lparr>fs_cache = raw_supply (fs_cache fs) r (Some regval),
                             fs_regval = regval,
                             fs_calls = fs_calls fs @ [(r, ret, regval)]\<rparr>
                   else Inr \<lparr>fs_cache = raw_supply (fs_cache fs) r None,
                             fs_regval = regval,
                             fs_calls = fs_calls fs @ [(r, ret, regval)]\<rparr>))"

subsection \<open>Per-task variant\<close>

text \<open>
  \<^verbatim>\<open>for (r = 0; regno == -1 && r < gdbarch_num_regs (arch); r++)\<close>, entered at the
  test.  An error leaves the loop with the state reached so far: the cache is updated in
  place and nothing undoes it.
\<close>

function fetch_loop_task ::
  "reg_primitive \<Rightarrow> gdbarch \<Rightarrow> int \<Rightarrow> int \<Rightarrow> fetch_state \<Rightarrow> (exn + unit) \<times> fetch_state" where
  "fetch_loop_task get_reg a regno r fs =
     (if regno = -1 \<and> r < gdbarch_num_regs a
      then (case fetch_body get_reg a r fs of
              Inl e \<Rightarrow> (Inl e, fs)
            | Inr fs' \<Rightarrow> fetch_loop_task get_reg a regno (r + 1) fs')
      else (Inr (), fs))"
  by pat_completeness auto
termination
  by (relation "measure (\<lambda>(get_reg, a, regno, r, fs). nat (gdbarch_num_regs a - r))") auto

declare fetch_loop_task.simps [simp del]

text \<open>
  \<^verbatim>\<open>crash_target::fetch_registers\<close> of \<^verbatim>\<open>src/crash_target.c\<close>.  A nonnegative
  \<^verbatim>\<open>regno\<close> jumps to the label \<^verbatim>\<open>onetime\<close> inside the loop with \<open>r = regno\<close>: the
  body runs once, \<open>r\<close> is incremented and the loop test is evaluated.  \<open>regval0\<close> is
  the content of the uninitialised local buffer.
\<close>

definition fetch_registers_task ::
  "reg_primitive \<Rightarrow> byte list \<Rightarrow> regcache \<Rightarrow> int \<Rightarrow> (exn + unit) \<times> fetch_state" where
  "fetch_registers_task crash_get_current_task_reg regval0 regcache regno =
     (let a = arch regcache;
          fs = \<lparr>fs_cache = regcache, fs_regval = regval0, fs_calls = []\<rparr>
      in if regno \<ge> 0
         then (case fetch_body crash_get_current_task_reg a regno fs of
                 Inl e \<Rightarrow> (Inl e, fs)
               | Inr fs' \<Rightarrow> fetch_loop_task crash_get_current_task_reg a regno (regno + 1) fs')
         else fetch_loop_task crash_get_current_task_reg a regno 0 fs)"

subsection \<open>Per-CPU variant\<close>

text \<open>\<^verbatim>\<open>for (int r = 0; r < gdbarch_num_regs (arch); r++)\<close>.\<close>

function fetch_loop_cpu ::
  "reg_primitive \<Rightarrow> gdbarch \<Rightarrow> int \<Rightarrow> fetch_state \<Rightarrow> (exn + unit) \<times> fetch_state" where
  "fetch_loop_cpu get_reg a r fs =
     (if r < gdbarch_num_regs a
      then (case fetch_body get_reg a r fs of
              Inl e \<Rightarrow> (Inl e, fs)
            | Inr fs' \<Rightarrow> fetch_loop_cpu get_reg a (r + 1) fs')
      else (Inr (), fs))"
  by pat_completeness auto
termination
  by (relation "measure (\<lambda>(get_reg, a, r, fs). nat (gdbarch_num_regs a - r))") auto

declare fetch_loop_cpu.simps [simp del]

text \<open>
  \<^verbatim>\<open>crash_target::fetch_registers\<close> of \<^verbatim>\<open>src/unnamed/part_000\<close> (``We just get all
  the registers, so we don't use regno'').  \<open>cpu\<close> is \<^verbatim>\<open>inferior_ptid.tid ()\<close>, read
  by the caller from gdb's state.
\<close>

definition fetch_registers_cpu ::
  "(int \<Rightarrow> reg_primitive) \<Rightarrow> int \<Rightarrow> byte list \<Rightarrow> regcache \<Rightarrow> int \<Rightarrow> (exn + unit) \<times> fetch_state" where
  "fetch_registers_cpu crash_get_cpu_reg cpu regval0 regcache regno =
     (let a = arch regcache;
          fs = \<lparr>fs_cache = regcache, fs_regval = regval0, fs_calls = []\<rparr>
      in fetch_loop_cpu (crash_get_cpu_reg cpu) a 0 fs)"

section \<open>Memory transfer\<close>

text \<open>
  gdb's \<^verbatim>\<open>enum target_object\<close> and \<^verbatim>\<open>enum target_xfer_status\<close> are declared in
  gdb's \<^verbatim>\<open>target.h\<close>; the object kinds the target does not name are kept as
  distinct constructors, the tail of the enumeration as \<open>TARGET_OBJECT_OTHER\<close>.
\<close>

datatype target_object =
    TARGET_OBJECT_AVR
  | TARGET_OBJECT_MEMORY
  | TARGET_OBJECT_RAW_MEMORY
  | TARGET_OBJECT_STACK_MEMORY
  | TARGET_OBJECT_CODE_MEMORY
  | TARGET_OBJECT_UNWIND_TABLE
  | TARGET_OBJECT_AUXV
  | TARGET_OBJECT_WCOOKIE
  | TARGET_OBJECT_MEMORY_MAP
  | TARGET_OBJECT_FLASH
  | TARGET_OBJECT_AVAILABLE_FEATURES
  | TARGET_OBJECT_LIBRARIES
  | TARGET_OBJECT_OTHER nat

datatype target_xfer_status =
    TARGET_XFER_OK
  | TARGET_XFER_EOF
  | TARGET_XFER_UNAVAILABLE
  | TARGET_XFER_E_IO

text \<open>
  crash's memory primitive
  \<^verbatim>\<open>int gdb_readmem_callback (unsigned long, void *, int, int)\<close>: from the address, the
  buffer (\<open>None\<close> for a null pointer), the length and the write flag, the return code
  and the buffer as the primitive leaves it.
\<close>

type_synonym mem_primitive =
  "ulong \<Rightarrow> byte list option \<Rightarrow> int \<Rightarrow> int \<Rightarrow> int \<times> byte list option"

text \<open>
  What a transfer works on besides its arguments by value: the cell \<^verbatim>\<open>*xfered_len\<close>,
  the memory behind the pointers \<^verbatim>\<open>readbuf\<close> and \<^verbatim>\<open>writebuf\<close> (\<open>None\<close> for a
  null pointer), and the calls of the primitive made so far (address, length and write flag
  of each, in call order).
\<close>

record xfer_state =
  xfered_len :: ulong
  readbuf :: "byte list option"
  writebuf :: "byte list option"
  readmem_calls :: "(ulong \<times> int \<times> int) list"

text \<open>
  \<^verbatim>\<open>crash_target::xfer_partial\<close>; the two files have the same text.  \<^verbatim>\<open>len\<close> is a
  64-bit \<^verbatim>\<open>ULONGEST\<close> and the primitive takes an \<^verbatim>\<open>int\<close>: the argument is the low
  32 bits read as signed.  \<^verbatim>\<open>!readbuf\<close> is 1 for a null read buffer.  The primitive is
  handed \<^verbatim>\<open>readbuf ? readbuf : writebuf\<close>; what it leaves there is stored back.
\<close>

definition xfer_partial ::
  "mem_primitive \<Rightarrow> target_object \<Rightarrow> string option \<Rightarrow> ulong \<Rightarrow> ulong \<Rightarrow> xfer_state
     \<Rightarrow> target_xfer_status \<times> xfer_state" where
  "xfer_partial gdb_readmem_callback object annex offset len st =
     (if object \<noteq> TARGET_OBJECT_MEMORY \<and> object \<noteq> TARGET_OBJECT_STACK_MEMORY
           \<and> object \<noteq> TARGET_OBJECT_CODE_MEMORY
      then (TARGET_XFER_E_IO, st)
      else
        (let buf = (if readbuf st \<noteq> None then readbuf st else writebuf st);
             n = sint (ucast len :: 32 word);
             w = (if readbuf st = None then 1 else 0)
         in case gdb_readmem_callback offset buf n w of
              (ret, buf') \<Rightarrow>
                (let st1 = (if readbuf st \<noteq> None then st\<lparr>readbuf := buf'\<rparr>
                            else st\<lparr>writebuf := buf'\<rparr>);
                     st2 = st1\<lparr>readmem_calls := readmem_calls st @ [(offset, n, w)]\<rparr>
                 in if ret \<noteq> 0
                    then (TARGET_XFER_OK, st2\<lparr>xfered_len := len\<rparr>)
                    else (TARGET_XFER_E_IO, st2))))"

section \<open>Context change, per-task variant\<close>

text \<open>
  The state the per-task notification works on: its static variable \<^verbatim>\<open>prev_task\<close>, the
  register cache of the single gdb thread, and how often gdb's \<^verbatim>\<open>registers_changed\<close>
  and \<^verbatim>\<open>reinit_frame_cache\<close> have been called.
\<close>

record task_state =
  prev_task :: ulong
  thread_regcache :: regcache
  registers_changed_calls :: nat
  reinit_frame_cache_calls :: nat

text \<open>
  The state before the first notification: \<^verbatim>\<open>static ulong prev_task = 0\<close>; the calls
  are counted from here.
\<close>

definition initial_task_state :: "regcache \<Rightarrow> task_state" where
  "initial_task_state rc =
     \<lparr>prev_task = 0, thread_regcache = rc,
      registers_changed_calls = 0, reinit_frame_cache_calls = 0\<rparr>"

text \<open>
  Modelled from the spec: \<^verbatim>\<open>registers_changed\<close> is gdb's and not part of the
  repository.  Section 4.4 of the specification: it marks all registers stale.
\<close>

definition registers_changed :: "task_state \<Rightarrow> task_state" where
  "registers_changed s =
     s\<lparr>thread_regcache := (thread_regcache s)\<lparr>regs := Map.empty\<rparr>,
       registers_changed_calls := registers_changed_calls s + 1\<rparr>"

text \<open>
  Modelled from the spec: \<^verbatim>\<open>reinit_frame_cache\<close> is gdb's and not part of the
  repository.  Section 4.4 of the specification: it discards the frame cache, which is seen
  here only through the count of the calls.
\<close>

definition reinit_frame_cache_task :: "task_state \<Rightarrow> task_state" where
  "reinit_frame_cache_task s =
     s\<lparr>reinit_frame_cache_calls := reinit_frame_cache_calls s + 1\<rparr>"

text \<open>\<^verbatim>\<open>gdb_change_thread_context\<close> of \<^verbatim>\<open>src/crash_target.c\<close>.\<close>

definition gdb_change_thread_context_task :: "task_state \<Rightarrow> ulong \<Rightarrow> int \<times> task_state" where
  "gdb_change_thread_context_task s task =
     (if task = prev_task s then (TRUE, s)
      else (let s1 = s\<lparr>prev_task := task\<rparr>;
                s2 = registers_changed s1;
                s3 = reinit_frame_cache_task s2
            in (TRUE, s3)))"

text \<open>A sequence of notifications, each on the state the one before left.\<close>

fun notifications_task :: "task_state \<Rightarrow> ulong list \<Rightarrow> task_state" where
  "notifications_task s [] = s"
| "notifications_task s (task # tasks) =
     notifications_task (snd (gdb_change_thread_context_task s task)) tasks"

section \<open>Context change, per-CPU variant\<close>

text \<open>
  A gdb thread record, as far as the target can tell two of them apart: the number gdb gives
  each record it creates, and the third component of its
  \<^verbatim>\<open>ptid_t (CRASH_INFERIOR_PID, 0, cpu)\<close>.
\<close>

record thread_info =
  ti_num :: nat
  ti_tid :: int

text \<open>
  gdb's state as the per-CPU target sees it: the thread records of the inferior in creation
  order, the number of records created so far, \<^verbatim>\<open>inferior_ptid.tid ()\<close>, the register
  cache of each thread (gdb keys them by ptid), the number of calls of
  \<^verbatim>\<open>reinit_frame_cache\<close>, the calls of \<^verbatim>\<open>crash_get_cpu_reg\<close> (the CPU, then as in
  \<open>fs_calls\<close>) and the calls of \<^verbatim>\<open>add_thread_silent\<close> (by \<open>tid\<close>).
\<close>

record cpu_state =
  thread_list :: "thread_info list"
  highest_thread_num :: nat
  inferior_tid :: int
  regcaches :: "int \<Rightarrow> regcache"
  frame_cache_resets :: nat
  cpu_reg_calls :: "(int \<times> int \<times> int \<times> byte list) list"
  add_thread_calls :: "int list"

text \<open>
  What the notification is given from outside: crash's primitives, whether gdb's
  \<^verbatim>\<open>add_thread_silent\<close> returns a null pointer for a \<open>tid\<close>, and the content of the
  uninitialised buffer \<^verbatim>\<open>regval\<close> of \<^verbatim>\<open>fetch_registers\<close>.
\<close>

record cpu_env =
  crash_set_thread :: "ulong \<Rightarrow> int"
  crash_get_cpu_reg :: "int \<Rightarrow> reg_primitive"
  add_thread_null :: "int \<Rightarrow> bool"
  regval_uninit :: "byte list"

text \<open>
  Modelled from the spec: \<^verbatim>\<open>find_thread_ptid\<close> is gdb's and not part of the
  repository.  Section 4.3 of the specification: the lookup returns the thread record of the
  CPU index if there is one (the first in the list, should there be several).
\<close>

definition find_thread_ptid :: "cpu_state \<Rightarrow> int \<Rightarrow> thread_info option" where
  "find_thread_ptid s cpu = List.find (\<lambda>t. ti_tid t = cpu) (thread_list s)"

text \<open>
  Modelled from the spec: \<^verbatim>\<open>add_thread_silent\<close> is gdb's and not part of the
  repository.  Section 4.3 of the specification: creation adds one record, which gets the
  next number, and returns it; or it fails, returns a null pointer and adds nothing.  The
  list is not searched for a record of the same CPU index.
\<close>

definition add_thread_silent :: "cpu_env \<Rightarrow> cpu_state \<Rightarrow> int \<Rightarrow> thread_info option \<times> cpu_state" where
  "add_thread_silent env s cpu =
     (if add_thread_null env cpu
      then (None, s\<lparr>add_thread_calls := add_thread_calls s @ [cpu]\<rparr>)
      else (let t = \<lparr>ti_num = highest_thread_num s + 1, ti_tid = cpu\<rparr>
            in (Some t, s\<lparr>thread_list := thread_list s @ [t],
                          highest_thread_num := highest_thread_num s + 1,
                          add_thread_calls := add_thread_calls s @ [cpu]\<rparr>)))"

text \<open>
  Modelled from the spec: \<^verbatim>\<open>get_thread_regcache\<close> is gdb's and not part of the
  repository.  Section 3 of the specification: one register cache per thread record.
\<close>

definition get_thread_regcache :: "cpu_state \<Rightarrow> thread_info \<Rightarrow> regcache" where
  "get_thread_regcache s tp = regcaches s (ti_tid tp)"

text \<open>
  Modelled from the spec: \<^verbatim>\<open>target_fetch_registers\<close> is gdb's and not part of the
  repository.  Section 6 of the specification: it is the host's way into the target's
  register-fetch entry point, here the per-CPU \<^verbatim>\<open>fetch_registers\<close>, which reads
  \<^verbatim>\<open>inferior_ptid.tid ()\<close> for its CPU; the cache it worked on is stored back and its
  calls of the read primitive are appended to the log.
\<close>

definition target_fetch_registers ::
  "cpu_env \<Rightarrow> cpu_state \<Rightarrow> thread_info \<Rightarrow> int \<Rightarrow> (exn + unit) \<times> cpu_state" where
  "target_fetch_registers env s tp regno =
     (let cpu = inferior_tid s in
      case fetch_registers_cpu (crash_get_cpu_reg env) cpu (regval_uninit env)
             (get_thread_regcache s tp) regno of
        (res, fs) \<Rightarrow>
          (res, s\<lparr>regcaches := (regcaches s)(ti_tid tp := fs_cache fs),
                  cpu_reg_calls := cpu_reg_calls s @ map (Pair cpu) (fs_calls fs)\<rparr>))"

text \<open>
  Modelled from the spec: \<^verbatim>\<open>switch_to_thread\<close> is gdb's and not part of the
  repository.  Section 4.3 of the specification: it makes the record the active thread.
\<close>

definition switch_to_thread :: "cpu_state \<Rightarrow> thread_info \<Rightarrow> cpu_state" where
  "switch_to_thread s tp = s\<lparr>inferior_tid := ti_tid tp\<rparr>"

text \<open>
  Modelled from the spec: \<^verbatim>\<open>reinit_frame_cache\<close> is gdb's and not part of the
  repository; as in the per-task variant, on gdb's state as the per-CPU target sees it.
\<close>

definition reinit_frame_cache_cpu :: "cpu_state \<Rightarrow> cpu_state" where
  "reinit_frame_cache_cpu s = s\<lparr>frame_cache_resets := frame_cache_resets s + 1\<rparr>"

text \<open>
  The end of \<^verbatim>\<open>gdb_change_thread_context\<close>, reached with a thread record: fetch all
  registers into its cache, switch to it, reset the frame cache, return \<^verbatim>\<open>TRUE\<close>.  An
  error thrown by the fetch passes through the notification; what was changed before stays.
\<close>

definition change_context_to :: "cpu_env \<Rightarrow> cpu_state \<Rightarrow> thread_info \<Rightarrow> (exn + int) \<times> cpu_state" where
  "change_context_to env s tp =
     (case target_fetch_registers env s tp (-1) of
        (Inl e, s1) \<Rightarrow> (Inl e, s1)
      | (Inr u, s1) \<Rightarrow> (Inr TRUE, reinit_frame_cache_cpu (switch_to_thread s1 tp)))"

text \<open>
  The part of \<^verbatim>\<open>gdb_change_thread_context\<close> from the label \<^verbatim>\<open>retry\<close> on, with the local
  variable \<^verbatim>\<open>tried\<close> as an argument.  With \<^verbatim>\<open>tp == nullptr\<close> and \<^verbatim>\<open>tried\<close> still
  zero, the record is created and \<^verbatim>\<open>tried\<close> incremented; a non-null result jumps back
  to \<^verbatim>\<open>retry\<close>, a null one falls through to \<^verbatim>\<open>tp == nullptr && tried\<close>, which then
  holds.
\<close>

function change_context_retry ::
  "cpu_env \<Rightarrow> int \<Rightarrow> nat \<Rightarrow> cpu_state \<Rightarrow> (exn + int) \<times> cpu_state" where
  "change_context_retry env cpu tried s =
     (case find_thread_ptid s cpu of
        None \<Rightarrow>
          if tried = 0
          then (case add_thread_silent env s cpu of
                  (Some thread, s1) \<Rightarrow> change_context_retry env cpu (tried + 1) s1
                | (None, s1) \<Rightarrow> (Inr FALSE, s1))
          else (Inr FALSE, s)
      | Some tp \<Rightarrow> change_context_to env s tp)"
  by pat_completeness auto
termination
  by (relation "measure (\<lambda>(env, cpu, tried, s). 1 - tried)") auto

declare change_context_retry.simps [simp del]

text \<open>\<^verbatim>\<open>gdb_change_thread_context\<close> of \<^verbatim>\<open>src/unnamed/part_000\<close>.\<close>

definition gdb_change_thread_context_cpu ::
  "cpu_env \<Rightarrow> cpu_state \<Rightarrow> ulong \<Rightarrow> (exn + int) \<times> cpu_state" where
  "gdb_change_thread_context_cpu env s task =
     (let cpu = crash_set_thread env task in
      if cpu < 0 then (Inr FALSE, s)
      else change_context_retry env cpu 0 s)"

text \<open>
  A sequence of notifications, each with the environment it runs in, each on the state the
  one before left (also when it ended in an error).
\<close>

fun notifications_cpu :: "cpu_state \<Rightarrow> (cpu_env \<times> ulong) list \<Rightarrow> cpu_state" where
  "notifications_cpu s [] = s"
| "notifications_cpu s ((env, task) # rest) =
     notifications_cpu (snd (gdb_change_thread_context_cpu env s task)) rest"

section \<open>What the specification asks of a cache entry\<close>

text \<open>
  The entry of a register after its read, in the words of section 4.1 of the specification:
  present with the bytes the primitive returned (as many as the register is wide) when the
  primitive reported success, explicitly unavailable when it reported failure.
\<close>

definition entry_after_read :: "gdbarch \<Rightarrow> int \<Rightarrow> int \<Rightarrow> byte list \<Rightarrow> reg_entry" where
  "entry_after_read a r ret bytes =
     (if ret \<noteq> 0 then REG_VALID (take (nat (sint (register_size a r))) bytes)
      else REG_UNAVAILABLE)"

text \<open>
  The buffer \<^verbatim>\<open>regval\<close> is never cleared between two registers, so in a fetch of all
  registers the primitive's call for a register finds what the calls for the registers before
  it left there.  \<open>regval_at g a buf r k\<close> is the buffer found by the call for register
  \<open>k\<close> when the loop stood at register \<open>r\<close> with the buffer \<open>buf\<close>; and
  \<open>read_of g a buf k\<close> is what the primitive returns for register \<open>k\<close> in a fetch of
  all registers that began with the buffer \<open>buf\<close>: the return code and the buffer as the
  call leaves it.
\<close>

function regval_at :: "reg_primitive \<Rightarrow> gdbarch \<Rightarrow> byte list \<Rightarrow> int \<Rightarrow> int \<Rightarrow> byte list" where
  "regval_at g a buf r k =
     (if r < k
      then regval_at g a (snd (g r (gdbarch_register_name a r) (register_size a r) buf)) (r + 1) k
      else buf)"
  by pat_completeness auto
termination
  by (relation "measure (\<lambda>(g, a, buf, r, k). nat (k - r))") auto

declare regval_at.simps [simp del]

definition read_of :: "reg_primitive \<Rightarrow> gdbarch \<Rightarrow> byte list \<Rightarrow> int \<Rightarrow> int \<times> byte list" where
  "read_of g a buf k =
     g k (gdbarch_register_name a k) (register_size a k) (regval_at g a buf 0 k)"

section \<open>Concrete inputs\<close>

text \<open>
  Two architectures of two registers each: in \<open>arch_fits\<close> both fit the buffer, in
  \<open>arch_wide\<close> register 1 is 32 bytes wide.
\<close>

definition arch_fits :: gdbarch where
  "arch_fits =
     \<lparr>gdbarch_num_regs = 2,
      gdbarch_register_name = (\<lambda>r. if r = 0 then ''rip'' else ''rsp''),
      register_size = (\<lambda>r. 8)\<rparr>"

definition arch_wide :: gdbarch where
  "arch_wide =
     \<lparr>gdbarch_num_regs = 2,
      gdbarch_register_name = (\<lambda>r. if r = 0 then ''rip'' else ''zmm0h''),
      register_size = (\<lambda>r. if r = 0 then 8 else 32)\<rparr>"



text \<open>A register cache in which nothing has been supplied yet.\<close>

definition empty_regcache :: "gdbarch \<Rightarrow> regcache" where
  "empty_regcache a = \<lparr>arch = a, regs = Map.empty\<rparr>"

text \<open>
  A read primitive that succeeds on register 0, filling eight bytes \<open>0x2a\<close>, and fails on
  every other register, leaving the buffer alone.
\<close>

definition get_reg_example :: reg_primitive where
  "get_reg_example r regname regsize regval =
     (if r = 0 then (1, replicate 8 42 @ drop 8 regval) else (0, regval))"

text \<open>
  A per-CPU environment: task handle 0 resolves to no CPU (-1), handle \<open>t > 0\<close> to CPU
  \<open>t - 1\<close>; thread creation fails from CPU 8 on.  With \<open>arch_fits\<close> caches the fetch
  completes, with \<open>arch_wide\<close> caches it aborts.
\<close>

definition env_example :: cpu_env where
  "env_example =
     \<lparr>crash_set_thread = (\<lambda>task. int (unat task) - 1),
      crash_get_cpu_reg = (\<lambda>cpu. get_reg_example),
      add_thread_null = (\<lambda>cpu. 8 \<le> cpu),
      regval_uninit = []\<rparr>"

text \<open>gdb's state with thread records for the CPUs 0 and 1, the first one active.\<close>

definition state_example :: "gdbarch \<Rightarrow> cpu_state" where
  "state_example a =
     \<lparr>thread_list = [\<lparr>ti_num = 1, ti_tid = 0\<rparr>, \<lparr>ti_num = 2, ti_tid = 1\<rparr>],
      highest_thread_num = 2,
      inferior_tid = 0,
      regcaches = (\<lambda>tid. empty_regcache a),
      frame_cache_resets = 1,
      cpu_reg_calls = [],
      add_thread_calls = [0, 1]\<rparr>"

text \<open>
  A memory primitive that succeeds below address \<open>0x8000\<close> and fails from there on; a
  transfer state with a read buffer and no call made yet.
\<close>

definition readmem_example :: mem_primitive where
  "readmem_example addr buf n w = (if addr < 0x8000 then (1, buf) else (0, buf))"

definition xfer_state_example :: xfer_state where
  "xfer_state_example =
     \<lparr>xfered_len = 0, readbuf = Some (replicate 64 0), writebuf = None, readmem_calls = []\<rparr>"

section \<open>Lemmas on the register fetch\<close>

text \<open>A register size exceeds the buffer when, read as signed, it is negative or above 16.\<close>

lemma exceeds_regval_iff: "exceeds_regval w \<longleftrightarrow> sint w < 0 \<or> 16 < sint w"
proof -
  have lo: "- (2 ^ 31) \<le> sint w" using sint_ge [of w] by simp
  have hi: "sint w < 2 ^ 31" using sint_lt [of w] by simp
  show ?thesis
  proof (cases "sint w < 0")
    case True
    have "sint w mod 2 ^ 64 = (sint w + 2 ^ 64) mod 2 ^ 64" by simp
    also have "\<dots> = sint w + 2 ^ 64"
      using True lo by (intro mod_pos_pos_trivial) simp_all
    finally show ?thesis using True lo unfolding exceeds_regval_def by simp
  next
    case False
    then have "sint w mod 2 ^ 64 = sint w" using hi by simp
    then show ?thesis using False unfolding exceeds_regval_def by simp
  qed
qed

lemma fetch_body_error:
  "exceeds_regval (register_size a r) \<Longrightarrow> fetch_body g a r fs = Inl ConfigurationError"
  by (simp add: fetch_body_def)

lemma fetch_body_ok:
  assumes "\<not> exceeds_regval (register_size a r)"
    and "g r (gdbarch_register_name a r) (register_size a r) (fs_regval fs) = (ret, bytes)"
  shows "fetch_body g a r fs =
           Inr \<lparr>fs_cache = raw_supply (fs_cache fs) r (if ret \<noteq> 0 then Some bytes else None),
                fs_regval = bytes, fs_calls = fs_calls fs @ [(r, ret, bytes)]\<rparr>"
  using assms by (simp add: fetch_body_def)

lemma fetch_body_cases:
  obtains (error) "exceeds_regval (register_size a r)" "fetch_body g a r fs = Inl ConfigurationError"
  | (ok) ret bytes where "\<not> exceeds_regval (register_size a r)"
      "fetch_body g a r fs =
           Inr \<lparr>fs_cache = raw_supply (fs_cache fs) r (if ret \<noteq> 0 then Some bytes else None),
                fs_regval = bytes, fs_calls = fs_calls fs @ [(r, ret, bytes)]\<rparr>"
proof (cases "exceeds_regval (register_size a r)")
  case True
  then show ?thesis using error fetch_body_error by blast
next
  case False
  obtain ret bytes where
    "g r (gdbarch_register_name a r) (register_size a r) (fs_regval fs) = (ret, bytes)"
    by (cases "g r (gdbarch_register_name a r) (register_size a r) (fs_regval fs)")
  with False show ?thesis using ok fetch_body_ok by blast
qed

lemma raw_supply_regs:
  "arch rc = a \<Longrightarrow>
   regs (raw_supply rc r (if ret \<noteq> 0 then Some bytes else None)) =
     (regs rc)(r \<mapsto> entry_after_read a r ret bytes)"
  by (simp add: raw_supply_def entry_after_read_def)

lemma raw_supply_arch: "arch (raw_supply rc r b) = arch rc"
  by (simp add: raw_supply_def)

lemma fetch_loop_task_all: "fetch_loop_task g a (-1) r fs = fetch_loop_cpu g a r fs"
proof (induction g a r fs rule: fetch_loop_cpu.induct)
  case (1 g a r fs)
  show ?case
  proof (cases "r < gdbarch_num_regs a")
    case True
    then show ?thesis
      using "1.IH" by (subst fetch_loop_task.simps, subst fetch_loop_cpu.simps)
        (simp split: sum.split)
  next
    case False
    then show ?thesis by (subst fetch_loop_task.simps, subst fetch_loop_cpu.simps) simp
  qed
qed

lemma fetch_loop_task_none: "regno \<noteq> -1 \<Longrightarrow> fetch_loop_task g a regno r fs = (Inr (), fs)"
  by (subst fetch_loop_task.simps) simp

lemma fetch_loop_cpu_arch:
  "arch (fs_cache (snd (fetch_loop_cpu g a r fs))) = arch (fs_cache fs)"
proof (induction g a r fs rule: fetch_loop_cpu.induct)
  case (1 g a r fs)
  show ?case
  proof (cases "r < gdbarch_num_regs a")
    case True
    show ?thesis
    proof (cases rule: fetch_body_cases [of a r g fs])
      case error
      then show ?thesis using True by (subst fetch_loop_cpu.simps) simp
    next
      case (ok ret bytes)
      then show ?thesis using True "1.IH" [OF True ok(2)]
        by (subst fetch_loop_cpu.simps) (simp add: raw_supply_arch)
    qed
  next
    case False
    then show ?thesis by (subst fetch_loop_cpu.simps) simp
  qed
qed


lemma raw_supply_other: "j \<noteq> r \<Longrightarrow> regs (raw_supply rc r b) j = regs rc j"
  by (simp add: raw_supply_def)

lemma fetch_loop_cpu_done:
  "\<not> r < gdbarch_num_regs a \<Longrightarrow> fetch_loop_cpu g a r fs = (Inr (), fs)"
  by (subst fetch_loop_cpu.simps) simp

lemma fetch_loop_cpu_error:
  "r < gdbarch_num_regs a \<Longrightarrow> exceeds_regval (register_size a r) \<Longrightarrow>
   fetch_loop_cpu g a r fs = (Inl ConfigurationError, fs)"
  by (subst fetch_loop_cpu.simps) (simp add: fetch_body_error)

lemma fetch_loop_cpu_next:
  "r < gdbarch_num_regs a \<Longrightarrow> fetch_body g a r fs = Inr fs' \<Longrightarrow>
   fetch_loop_cpu g a r fs = fetch_loop_cpu g a (r + 1) fs'"
  by (subst fetch_loop_cpu.simps) simp

lemma fetch_loop_cpu_untouched:
  "j < r \<or> (\<exists>k. r \<le> k \<and> k \<le> j \<and> exceeds_regval (register_size a k)) \<Longrightarrow>
   regs (fs_cache (snd (fetch_loop_cpu g a r fs))) j = regs (fs_cache fs) j"
proof (induction g a r fs rule: fetch_loop_cpu.induct)
  case (1 g a r fs)
  show ?case
  proof (cases "r < gdbarch_num_regs a")
    case False
    then show ?thesis by (simp add: fetch_loop_cpu_done)
  next
    case True
    show ?thesis
    proof (cases rule: fetch_body_cases [of a r g fs])
      case error
      then show ?thesis using True by (simp add: fetch_loop_cpu_error)
    next
      case (ok ret bytes)
      have ne: "j \<noteq> r" using "1.prems" ok(1) by auto
      have nxt: "j < r + 1 \<or> (\<exists>k. r + 1 \<le> k \<and> k \<le> j \<and> exceeds_regval (register_size a k))"
      proof -
        from "1.prems" show ?thesis
        proof
          assume "j < r" then show ?thesis by simp
        next
          assume "\<exists>k. r \<le> k \<and> k \<le> j \<and> exceeds_regval (register_size a k)"
          then obtain k where k: "r \<le> k" "k \<le> j" "exceeds_regval (register_size a k)" by blast
          with ok(1) have "k \<noteq> r" by auto
          with k have "r + 1 \<le> k \<and> k \<le> j \<and> exceeds_regval (register_size a k)" by simp
          then show ?thesis by blast
        qed
      qed
      show ?thesis
        using "1.IH" [OF True ok(2) nxt] ne
        by (simp add: fetch_loop_cpu_next [OF True ok(2)] raw_supply_other)
    qed
  qed
qed

lemma fetch_loop_cpu_aborts:
  "r \<le> k \<Longrightarrow> k < gdbarch_num_regs a \<Longrightarrow> exceeds_regval (register_size a k) \<Longrightarrow>
   fst (fetch_loop_cpu g a r fs) = Inl ConfigurationError"
proof (induction g a r fs rule: fetch_loop_cpu.induct)
  case (1 g a r fs)
  have lt: "r < gdbarch_num_regs a" using "1.prems" by simp
  show ?case
  proof (cases rule: fetch_body_cases [of a r g fs])
    case error
    then show ?thesis using lt by (simp add: fetch_loop_cpu_error)
  next
    case (ok ret bytes)
    with "1.prems" have "r \<noteq> k" by auto
    with "1.prems" have "r + 1 \<le> k" by simp
    then show ?thesis
      using "1.IH" [OF lt ok(2)] "1.prems" by (simp add: fetch_loop_cpu_next [OF lt ok(2)])
  qed
qed

lemma fetch_loop_cpu_completes:
  "(\<forall>j. r \<le> j \<and> j < gdbarch_num_regs a \<longrightarrow> \<not> exceeds_regval (register_size a j)) \<Longrightarrow>
   fst (fetch_loop_cpu g a r fs) = Inr ()"
proof (induction g a r fs rule: fetch_loop_cpu.induct)
  case (1 g a r fs)
  show ?case
  proof (cases "r < gdbarch_num_regs a")
    case False
    then show ?thesis by (simp add: fetch_loop_cpu_done)
  next
    case True
    show ?thesis
    proof (cases rule: fetch_body_cases [of a r g fs])
      case error
      then show ?thesis using True "1.prems" by auto
    next
      case (ok ret bytes)
      then show ?thesis
        using "1.IH" [OF True ok(2)] "1.prems" by (simp add: fetch_loop_cpu_next [OF True ok(2)])
    qed
  qed
qed

lemma fetch_loop_cpu_calls_mono:
  "set (fs_calls fs) \<subseteq> set (fs_calls (snd (fetch_loop_cpu g a r fs)))"
proof (induction g a r fs rule: fetch_loop_cpu.induct)
  case (1 g a r fs)
  show ?case
  proof (cases "r < gdbarch_num_regs a")
    case False
    then show ?thesis by (simp add: fetch_loop_cpu_done)
  next
    case True
    show ?thesis
    proof (cases rule: fetch_body_cases [of a r g fs])
      case error
      then show ?thesis using True by (simp add: fetch_loop_cpu_error)
    next
      case (ok ret bytes)
      then show ?thesis
        using "1.IH" [OF True ok(2)] by (auto simp: fetch_loop_cpu_next [OF True ok(2)])
    qed
  qed
qed

lemma fetch_loop_cpu_reaches:
  "r \<le> k \<Longrightarrow> k < gdbarch_num_regs a \<Longrightarrow>
   (\<forall>j. r \<le> j \<and> j \<le> k \<longrightarrow> \<not> exceeds_regval (register_size a j)) \<Longrightarrow>
   arch (fs_cache fs) = a \<Longrightarrow>
   \<exists>ret bytes. (k, ret, bytes) \<in> set (fs_calls (snd (fetch_loop_cpu g a r fs)))
      \<and> regs (fs_cache (snd (fetch_loop_cpu g a r fs))) k = Some (entry_after_read a k ret bytes)"
proof (induction g a r fs rule: fetch_loop_cpu.induct)
  case (1 g a r fs)
  have lt: "r < gdbarch_num_regs a" using "1.prems" by simp
  show ?case
  proof (cases rule: fetch_body_cases [of a r g fs])
    case error
    then show ?thesis using "1.prems" by auto
  next
    case (ok ret bytes)
    let ?fs' = "\<lparr>fs_cache = raw_supply (fs_cache fs) r (if ret \<noteq> 0 then Some bytes else None),
                fs_regval = bytes, fs_calls = fs_calls fs @ [(r, ret, bytes)]\<rparr>"
    have step: "fetch_loop_cpu g a r fs = fetch_loop_cpu g a (r + 1) ?fs'"
      by (rule fetch_loop_cpu_next [OF lt ok(2)])
    show ?thesis
    proof (cases "r = k")
      case True
      have "regs (fs_cache (snd (fetch_loop_cpu g a (r + 1) ?fs'))) k = regs (fs_cache ?fs') k"
        by (rule fetch_loop_cpu_untouched) (simp add: True)
      moreover have "regs (fs_cache ?fs') k = Some (entry_after_read a k ret bytes)"
        using "1.prems"(4) True by (simp add: raw_supply_regs)
      moreover have "(k, ret, bytes) \<in> set (fs_calls (snd (fetch_loop_cpu g a (r + 1) ?fs')))"
        using fetch_loop_cpu_calls_mono [of ?fs' g a "r + 1"] True by auto
      ultimately show ?thesis unfolding step by metis
    next
      case False
      with "1.prems" have "r + 1 \<le> k" by simp
      moreover have "arch (fs_cache ?fs') = a" using "1.prems"(4) by (simp add: raw_supply_arch)
      ultimately show ?thesis
        using "1.IH" [OF lt ok(2)] "1.prems" unfolding step by simp
    qed
  qed
qed

lemma sint_wide: "16 < sint w \<Longrightarrow> exceeds_regval w"
  by (simp add: exceeds_regval_iff)



lemma fetch_registers_cpu_loop:
  "fetch_registers_cpu cg cpu buf rc regno =
     fetch_loop_cpu (cg cpu) (arch rc) 0 \<lparr>fs_cache = rc, fs_regval = buf, fs_calls = []\<rparr>"
  by (simp add: fetch_registers_cpu_def)

lemma fetch_registers_task_all:
  "fetch_registers_task g buf rc (-1) =
     fetch_loop_cpu g (arch rc) 0 \<lparr>fs_cache = rc, fs_regval = buf, fs_calls = []\<rparr>"
  by (simp add: fetch_registers_task_def fetch_loop_task_all)

lemma fetch_registers_task_single:
  "0 \<le> regno \<Longrightarrow>
   fetch_registers_task g buf rc regno =
     (case fetch_body g (arch rc) regno \<lparr>fs_cache = rc, fs_regval = buf, fs_calls = []\<rparr> of
        Inl e \<Rightarrow> (Inl e, \<lparr>fs_cache = rc, fs_regval = buf, fs_calls = []\<rparr>)
      | Inr fs' \<Rightarrow> (Inr (), fs'))"
  by (simp add: fetch_registers_task_def fetch_loop_task_none split: sum.split)

lemma fetch_registers_task_nothing:
  "regno < -1 \<Longrightarrow>
   fetch_registers_task g buf rc regno =
     (Inr (), \<lparr>fs_cache = rc, fs_regval = buf, fs_calls = []\<rparr>)"
  by (simp add: fetch_registers_task_def fetch_loop_task_none)

lemma fetch_registers_task_fits:
  assumes "0 \<le> regno" "\<not> exceeds_regval (register_size (arch rc) regno)"
    and "g regno (gdbarch_register_name (arch rc) regno) (register_size (arch rc) regno) buf
           = (ret, bytes)"
  shows "fetch_registers_task g buf rc regno =
           (Inr (), \<lparr>fs_cache = rc\<lparr>regs := (regs rc)(regno \<mapsto>
                                   entry_after_read (arch rc) regno ret bytes)\<rparr>,
                      fs_regval = bytes, fs_calls = [(regno, ret, bytes)]\<rparr>)"
proof -
  let ?fs = "\<lparr>fs_cache = rc, fs_regval = buf, fs_calls = []\<rparr>"
  have "fetch_body g (arch rc) regno ?fs =
          Inr \<lparr>fs_cache = raw_supply rc regno (if ret \<noteq> 0 then Some bytes else None),
               fs_regval = bytes, fs_calls = [(regno, ret, bytes)]\<rparr>"
    using fetch_body_ok [of "arch rc" regno g ?fs ret bytes] assms by simp
  moreover have "raw_supply rc regno (if ret \<noteq> 0 then Some bytes else None) =
          rc\<lparr>regs := (regs rc)(regno \<mapsto> entry_after_read (arch rc) regno ret bytes)\<rparr>"
    by (simp add: raw_supply_def entry_after_read_def)
  ultimately show ?thesis using assms(1) by (simp add: fetch_registers_task_single)
qed

text \<open>
  The fetch of all registers, register by register: the call of the primitive for a register
  the loop reaches, and the registers read when all of them fit.
\<close>

lemma regval_at_same: "regval_at g a buf r r = buf"
  by (subst regval_at.simps) simp

lemma regval_at_step:
  "r < k \<Longrightarrow>
   regval_at g a buf r k =
     regval_at g a (snd (g r (gdbarch_register_name a r) (register_size a r) buf)) (r + 1) k"
  by (subst regval_at.simps) simp

lemma fetch_body_fits:
  assumes "\<not> exceeds_regval (register_size a r)"
  shows "fetch_body g a r fs =
     Inr \<lparr>fs_cache = raw_supply (fs_cache fs) r
             (if fst (g r (gdbarch_register_name a r) (register_size a r) (fs_regval fs)) \<noteq> 0
              then Some (snd (g r (gdbarch_register_name a r) (register_size a r) (fs_regval fs)))
              else None),
          fs_regval = snd (g r (gdbarch_register_name a r) (register_size a r) (fs_regval fs)),
          fs_calls = fs_calls fs @
            [(r, fst (g r (gdbarch_register_name a r) (register_size a r) (fs_regval fs)),
                 snd (g r (gdbarch_register_name a r) (register_size a r) (fs_regval fs)))]\<rparr>"
  by (rule fetch_body_ok [OF assms]) simp

lemma fetch_loop_cpu_reads:
  "r \<le> k \<Longrightarrow> k < gdbarch_num_regs a \<Longrightarrow>
   (\<forall>j. r \<le> j \<and> j \<le> k \<longrightarrow> \<not> exceeds_regval (register_size a j)) \<Longrightarrow>
   arch (fs_cache fs) = a \<Longrightarrow>
   p = g k (gdbarch_register_name a k) (register_size a k) (regval_at g a (fs_regval fs) r k) \<Longrightarrow>
   (k, fst p, snd p) \<in> set (fs_calls (snd (fetch_loop_cpu g a r fs)))
   \<and> regs (fs_cache (snd (fetch_loop_cpu g a r fs))) k
        = Some (entry_after_read a k (fst p) (snd p))"
proof (induction g a r fs rule: fetch_loop_cpu.induct)
  case (1 g a r fs)
  let ?q = "g r (gdbarch_register_name a r) (register_size a r) (fs_regval fs)"
  let ?fs' = "\<lparr>fs_cache = raw_supply (fs_cache fs) r (if fst ?q \<noteq> 0 then Some (snd ?q) else None),
               fs_regval = snd ?q, fs_calls = fs_calls fs @ [(r, fst ?q, snd ?q)]\<rparr>"
  have lt: "r < gdbarch_num_regs a" using "1.prems" by simp
  have fit: "\<not> exceeds_regval (register_size a r)" using "1.prems" by simp
  have body: "fetch_body g a r fs = Inr ?fs'" by (rule fetch_body_fits [OF fit])
  have step: "fetch_loop_cpu g a r fs = fetch_loop_cpu g a (r + 1) ?fs'"
    by (rule fetch_loop_cpu_next [OF lt body])
  show ?case
  proof (cases "r = k")
    case True
    have p: "p = ?q" using "1.prems"(5) True by (simp add: regval_at_same)
    have "regs (fs_cache (snd (fetch_loop_cpu g a (r + 1) ?fs'))) k = regs (fs_cache ?fs') k"
      by (rule fetch_loop_cpu_untouched) (simp add: True)
    moreover have "regs (fs_cache ?fs') k = Some (entry_after_read a k (fst p) (snd p))"
      using "1.prems"(4) True p by (simp add: raw_supply_regs)
    moreover have "(k, fst p, snd p) \<in> set (fs_calls (snd (fetch_loop_cpu g a (r + 1) ?fs')))"
      using fetch_loop_cpu_calls_mono [of ?fs' g a "r + 1"] True p by auto
    ultimately show ?thesis unfolding step by simp
  next
    case False
    with "1.prems" have le: "r + 1 \<le> k" and rk: "r < k" by simp_all
    have ar: "arch (fs_cache ?fs') = a" using "1.prems"(4) by (simp add: raw_supply_arch)
    have fits: "\<forall>j. r + 1 \<le> j \<and> j \<le> k \<longrightarrow> \<not> exceeds_regval (register_size a j)"
      using "1.prems"(3) by simp
    have p: "p = g k (gdbarch_register_name a k) (register_size a k)
                   (regval_at g a (fs_regval ?fs') (r + 1) k)"
      using "1.prems"(5) regval_at_step [OF rk, of g a "fs_regval fs"] by simp
    show ?thesis
      unfolding step by (rule "1.IH" [OF lt body le "1.prems"(2) fits ar p])
  qed
qed

lemma fetch_loop_cpu_calls_all:
  "(\<forall>j. r \<le> j \<and> j < gdbarch_num_regs a \<longrightarrow> \<not> exceeds_regval (register_size a j)) \<Longrightarrow>
   map fst (fs_calls (snd (fetch_loop_cpu g a r fs)))
     = map fst (fs_calls fs) @ [r..gdbarch_num_regs a - 1]"
proof (induction g a r fs rule: fetch_loop_cpu.induct)
  case (1 g a r fs)
  show ?case
  proof (cases "r < gdbarch_num_regs a")
    case False
    then show ?thesis by (simp add: fetch_loop_cpu_done)
  next
    case True
    let ?q = "g r (gdbarch_register_name a r) (register_size a r) (fs_regval fs)"
    let ?fs' = "\<lparr>fs_cache = raw_supply (fs_cache fs) r (if fst ?q \<noteq> 0 then Some (snd ?q) else None),
               fs_regval = snd ?q, fs_calls = fs_calls fs @ [(r, fst ?q, snd ?q)]\<rparr>"
    have fit: "\<not> exceeds_regval (register_size a r)" using "1.prems" True by simp
    have body: "fetch_body g a r fs = Inr ?fs'" by (rule fetch_body_fits [OF fit])
    have step: "fetch_loop_cpu g a r fs = fetch_loop_cpu g a (r + 1) ?fs'"
      by (rule fetch_loop_cpu_next [OF True body])
    have fits: "\<forall>j. r + 1 \<le> j \<and> j < gdbarch_num_regs a \<longrightarrow> \<not> exceeds_regval (register_size a j)"
      using "1.prems" by simp
    have up: "[r..gdbarch_num_regs a - 1] = r # [r + 1..gdbarch_num_regs a - 1]"
      using True by (simp add: upto_rec1)
    show ?thesis
      unfolding step using "1.IH" [OF True body fits] by (simp add: up)
  qed
qed

section \<open>Claims on the register fetch\<close>

text \<open>
  Claim C2, as amended.  For every register fetch (either variant), if some requested
  register \<open>k\<close> is declared wider than the 16-byte scratch buffer, the fetch aborts with the
  ConfigurationError diagnostic.  The cache entries of \<open>k\<close> and of every register after it
  are then as they were before the fetch, and a single-register fetch of \<open>k\<close> (per-task
  variant) leaves the whole cache as it was and reads nothing.  In a fetch of all registers,
  however, the registers before the first one that does not fit have been supplied by the
  time of the abort: each holds what its read gave (present or unavailable), whatever it held
  before.  The claim as stated, that no register entry is modified, fails there, as the
  concrete fetch after the witness shows.
\<close>
theorem fetch_registers_too_wide:
  assumes "0 \<le> k" and "k < gdbarch_num_regs (arch rc)"
    and "16 < sint (register_size (arch rc) k)"
  shows "fst (fetch_registers_cpu cg cpu buf rc regno) = Inl ConfigurationError
       \<and> fst (fetch_registers_task g buf rc (-1)) = Inl ConfigurationError
       \<and> fetch_registers_task g buf rc k =
           (Inl ConfigurationError, \<lparr>fs_cache = rc, fs_regval = buf, fs_calls = []\<rparr>)
       \<and> (\<forall>j. k \<le> j \<longrightarrow>
             regs (fs_cache (snd (fetch_registers_cpu cg cpu buf rc regno))) j = regs rc j
           \<and> regs (fs_cache (snd (fetch_registers_task g buf rc (-1)))) j = regs rc j)
       \<and> ((\<forall>i. 0 \<le> i \<and> i < k \<longrightarrow> 0 \<le> sint (register_size (arch rc) i)
                                      \<and> sint (register_size (arch rc) i) \<le> 16) \<longrightarrow>
          (\<forall>i. 0 \<le> i \<and> i < k \<longrightarrow>
             (\<exists>ret bytes. regs (fs_cache (snd (fetch_registers_cpu cg cpu buf rc regno))) i
                            = Some (entry_after_read (arch rc) i ret bytes))
           \<and> (\<exists>ret bytes. regs (fs_cache (snd (fetch_registers_task g buf rc (-1)))) i
                            = Some (entry_after_read (arch rc) i ret bytes))))"
proof -
  let ?fs = "\<lparr>fs_cache = rc, fs_regval = buf, fs_calls = []\<rparr>"
  have wide: "exceeds_regval (register_size (arch rc) k)"
    using assms(3) by (rule sint_wide)
  have abort: "fst (fetch_loop_cpu h (arch rc) 0 ?fs) = Inl ConfigurationError" for h
    using assms(1,2) wide by (rule fetch_loop_cpu_aborts)
  have keep: "regs (fs_cache (snd (fetch_loop_cpu h (arch rc) 0 ?fs))) j = regs rc j"
    if "k \<le> j" for h j
  proof -
    have "regs (fs_cache (snd (fetch_loop_cpu h (arch rc) 0 ?fs))) j = regs (fs_cache ?fs) j"
      by (rule fetch_loop_cpu_untouched) (use assms(1) wide that in blast)
    then show ?thesis by simp
  qed
  have single: "fetch_registers_task g buf rc k = (Inl ConfigurationError, ?fs)"
    using assms(1) wide by (simp add: fetch_registers_task_single fetch_body_error)
  have before: "\<exists>ret bytes. regs (fs_cache (snd (fetch_loop_cpu h (arch rc) 0 ?fs))) i
                  = Some (entry_after_read (arch rc) i ret bytes)"
    if fits: "\<forall>i. 0 \<le> i \<and> i < k \<longrightarrow> 0 \<le> sint (register_size (arch rc) i)
                                      \<and> sint (register_size (arch rc) i) \<le> 16"
      and i: "0 \<le> i" "i < k" for h i
  proof -
    have "\<forall>j. 0 \<le> j \<and> j \<le> i \<longrightarrow> \<not> exceeds_regval (register_size (arch rc) j)"
    proof (intro allI impI)
      fix j assume "0 \<le> j \<and> j \<le> i"
      with i have "0 \<le> j \<and> j < k" by simp
      with fits have "0 \<le> sint (register_size (arch rc) j)
          \<and> sint (register_size (arch rc) j) \<le> 16" by blast
      then show "\<not> exceeds_regval (register_size (arch rc) j)"
        by (simp add: exceeds_regval_iff)
    qed
    moreover have "i < gdbarch_num_regs (arch rc)" using i assms(2) by simp
    ultimately have "\<exists>ret bytes. (i, ret, bytes) \<in> set (fs_calls (snd (fetch_loop_cpu h (arch rc) 0 ?fs)))
        \<and> regs (fs_cache (snd (fetch_loop_cpu h (arch rc) 0 ?fs))) i
            = Some (entry_after_read (arch rc) i ret bytes)"
      using i(1) by (intro fetch_loop_cpu_reaches) simp_all
    then show ?thesis by blast
  qed
  show ?thesis
    unfolding fetch_registers_cpu_loop fetch_registers_task_all
    using abort keep single [unfolded fetch_registers_task_all] before
    by (intro conjI allI impI) (simp_all add: single)
qed

text \<open>
  The theorem at the architecture \<open>arch_wide\<close>, whose register 1 is 32 bytes wide.
\<close>

theorem fetch_registers_too_wide_witness:
  "0 \<le> (1::int) \<and> 1 < gdbarch_num_regs (arch (empty_regcache arch_wide))
   \<and> 16 < sint (register_size (arch (empty_regcache arch_wide)) 1)
   \<and> fst (fetch_registers_cpu (crash_get_cpu_reg env_example) 0 [] (empty_regcache arch_wide) (-1))
        = Inl ConfigurationError
   \<and> fst (fetch_registers_task get_reg_example [] (empty_regcache arch_wide) (-1))
        = Inl ConfigurationError
   \<and> fetch_registers_task get_reg_example [] (empty_regcache arch_wide) 1 =
       (Inl ConfigurationError,
        \<lparr>fs_cache = empty_regcache arch_wide, fs_regval = [], fs_calls = []\<rparr>)
   \<and> regs (fs_cache (snd (fetch_registers_cpu (crash_get_cpu_reg env_example) 0 []
                             (empty_regcache arch_wide) (-1)))) 1
        = regs (empty_regcache arch_wide) 1"
proof -
  have h1: "0 \<le> (1::int)" by simp
  have h2: "1 < gdbarch_num_regs (arch (empty_regcache arch_wide))"
    by (simp add: empty_regcache_def arch_wide_def)
  have h3: "16 < sint (register_size (arch (empty_regcache arch_wide)) 1)"
    by (simp add: empty_regcache_def arch_wide_def)
  show ?thesis
    using fetch_registers_too_wide [OF h1 h2 h3, of "crash_get_cpu_reg env_example" 0 "[]" "-1"
        get_reg_example] h1 h2 h3
    by blast
qed

text \<open>
  Against C2 as stated: on \<open>arch_wide\<close> the fetch of all registers aborts at register 1
  with ConfigurationError, in both variants, after register 0 has been supplied; the cache is
  not what it was before the fetch began.
\<close>

theorem fetch_registers_partial_counterexample:
  "16 < sint (register_size (arch (empty_regcache arch_wide)) 1)
   \<and> fst (fetch_registers_cpu (crash_get_cpu_reg env_example) 0 [] (empty_regcache arch_wide) (-1))
        = Inl ConfigurationError
   \<and> regs (fs_cache (snd (fetch_registers_cpu (crash_get_cpu_reg env_example) 0 []
                             (empty_regcache arch_wide) (-1)))) 0
        = Some (REG_VALID (replicate 8 42))
   \<and> regs (empty_regcache arch_wide) 0 = None
   \<and> fs_cache (snd (fetch_registers_cpu (crash_get_cpu_reg env_example) 0 []
                      (empty_regcache arch_wide) (-1))) \<noteq> empty_regcache arch_wide
   \<and> fst (fetch_registers_task get_reg_example [] (empty_regcache arch_wide) (-1))
        = Inl ConfigurationError
   \<and> fs_cache (snd (fetch_registers_task get_reg_example [] (empty_regcache arch_wide) (-1)))
        \<noteq> empty_regcache arch_wide"
proof -
  let ?fs = "\<lparr>fs_cache = empty_regcache arch_wide, fs_regval = [], fs_calls = []\<rparr>"
  have run: "fetch_loop_cpu get_reg_example arch_wide 0 ?fs =
     (Inl ConfigurationError,
      \<lparr>fs_cache = \<lparr>arch = arch_wide, regs = [0 \<mapsto> REG_VALID (replicate 8 42)]\<rparr>,
       fs_regval = replicate 8 42, fs_calls = [(0, 1, replicate 8 42)]\<rparr>)"
    by (simp add: fetch_loop_cpu.simps fetch_body_def exceeds_regval_iff raw_supply_def
        empty_regcache_def arch_wide_def get_reg_example_def)
  have cpu: "fetch_registers_cpu (crash_get_cpu_reg env_example) 0 [] (empty_regcache arch_wide) (-1)
      = fetch_loop_cpu get_reg_example arch_wide 0 ?fs"
    by (simp add: fetch_registers_cpu_def env_example_def empty_regcache_def)
  have task: "fetch_registers_task get_reg_example [] (empty_regcache arch_wide) (-1)
      = fetch_loop_cpu get_reg_example arch_wide 0 ?fs"
    by (simp add: fetch_registers_task_all empty_regcache_def)
  have ne: "\<lparr>arch = arch_wide, regs = [0 \<mapsto> REG_VALID (replicate 8 42)]\<rparr> \<noteq> empty_regcache arch_wide"
  proof
    assume "\<lparr>arch = arch_wide, regs = [0 \<mapsto> REG_VALID (replicate 8 42)]\<rparr> = empty_regcache arch_wide"
    then have "regs \<lparr>arch = arch_wide, regs = [0 \<mapsto> REG_VALID (replicate 8 42)]\<rparr> 0
        = regs (empty_regcache arch_wide) 0" by simp
    then show False by (simp add: empty_regcache_def)
  qed
  show ?thesis
    unfolding cpu task run using ne by (simp add: empty_regcache_def arch_wide_def)
qed

text \<open>
  The fetch of all registers from register 0, on the state \<^verbatim>\<open>fetch_registers\<close> starts
  with.
\<close>

lemma fetch_all_reads:
  assumes "0 \<le> r" and "r < gdbarch_num_regs (arch rc)"
    and "\<forall>j. 0 \<le> j \<and> j \<le> r \<longrightarrow> 0 \<le> sint (register_size (arch rc) j)
                                   \<and> sint (register_size (arch rc) j) \<le> 16"
  shows "(r, fst (read_of h (arch rc) buf r), snd (read_of h (arch rc) buf r))
           \<in> set (fs_calls (snd (fetch_loop_cpu h (arch rc) 0
                   \<lparr>fs_cache = rc, fs_regval = buf, fs_calls = []\<rparr>)))
       \<and> regs (fs_cache (snd (fetch_loop_cpu h (arch rc) 0
                   \<lparr>fs_cache = rc, fs_regval = buf, fs_calls = []\<rparr>))) r
           = Some (entry_after_read (arch rc) r (fst (read_of h (arch rc) buf r))
                     (snd (read_of h (arch rc) buf r)))"
proof -
  have fits: "\<forall>j. 0 \<le> j \<and> j \<le> r \<longrightarrow> \<not> exceeds_regval (register_size (arch rc) j)"
  proof (intro allI impI)
    fix j assume "0 \<le> j \<and> j \<le> r"
    with assms(3) have "0 \<le> sint (register_size (arch rc) j)
        \<and> sint (register_size (arch rc) j) \<le> 16" by blast
    then show "\<not> exceeds_regval (register_size (arch rc) j)"
      by (simp add: exceeds_regval_iff)
  qed
  show ?thesis
    by (rule fetch_loop_cpu_reads [OF assms(1,2) fits]) (simp_all add: read_of_def)
qed

lemma fetch_all_completes:
  assumes "\<forall>j. 0 \<le> j \<and> j < gdbarch_num_regs (arch rc) \<longrightarrow>
              0 \<le> sint (register_size (arch rc) j) \<and> sint (register_size (arch rc) j) \<le> 16"
  shows "fst (fetch_loop_cpu h (arch rc) 0 \<lparr>fs_cache = rc, fs_regval = buf, fs_calls = []\<rparr>)
           = Inr ()
       \<and> map fst (fs_calls (snd (fetch_loop_cpu h (arch rc) 0
                   \<lparr>fs_cache = rc, fs_regval = buf, fs_calls = []\<rparr>)))
           = [0..gdbarch_num_regs (arch rc) - 1]"
proof -
  have fits: "\<forall>j. 0 \<le> j \<and> j < gdbarch_num_regs (arch rc) \<longrightarrow>
                \<not> exceeds_regval (register_size (arch rc) j)"
  proof (intro allI impI)
    fix j assume "0 \<le> j \<and> j < gdbarch_num_regs (arch rc)"
    with assms have "0 \<le> sint (register_size (arch rc) j)
        \<and> sint (register_size (arch rc) j) \<le> 16" by blast
    then show "\<not> exceeds_regval (register_size (arch rc) j)"
      by (simp add: exceeds_regval_iff)
  qed
  show ?thesis
    using fetch_loop_cpu_completes [OF fits] fetch_loop_cpu_calls_all [OF fits] by simp
qed





text \<open>
  Claim C8, as amended.  In the per-task variant a call of the register-fetch entry point
  with a nonnegative register index \<open>regno\<close> reads no register but \<open>regno\<close> and leaves
  every other register's cache entry untouched; if the width of \<open>regno\<close> fits the buffer
  the call returns normally with exactly that one read and that one entry supplied.  The
  per-CPU variant does not use the index: with any index \<open>i\<close> it does what the per-task
  variant does for the index \<open>-1\<close>, a fetch of all registers.  Such a fetch calls the read
  primitive for every register from 0 up to the first one that does not fit the buffer and
  supplies each of them from its call; when all registers fit it returns normally, having
  read the registers \<open>0, \<dots>, gdbarch_num_regs - 1\<close> in this order.  The per-task variant
  fetches nothing for an index below \<open>-1\<close>.
\<close>
theorem fetch_registers_regno:
  assumes "0 \<le> regno"
  shows "(\<forall>j. j \<noteq> regno \<longrightarrow>
            regs (fs_cache (snd (fetch_registers_task g buf rc regno))) j = regs rc j)
       \<and> (\<forall>c \<in> set (fs_calls (snd (fetch_registers_task g buf rc regno))). fst c = regno)
       \<and> (0 \<le> sint (register_size (arch rc) regno) \<and> sint (register_size (arch rc) regno) \<le> 16 \<longrightarrow>
            (\<exists>ret bytes.
                g regno (gdbarch_register_name (arch rc) regno) (register_size (arch rc) regno) buf
                  = (ret, bytes)
              \<and> fetch_registers_task g buf rc regno =
                  (Inr (), \<lparr>fs_cache = rc\<lparr>regs := (regs rc)(regno \<mapsto>
                                           entry_after_read (arch rc) regno ret bytes)\<rparr>,
                             fs_regval = bytes, fs_calls = [(regno, ret, bytes)]\<rparr>)))
       \<and> fetch_registers_cpu cg cpu buf rc i = fetch_registers_cpu cg cpu buf rc (-1)
       \<and> fetch_registers_task (cg cpu) buf rc (-1) = fetch_registers_cpu cg cpu buf rc i
       \<and> (\<forall>r. 0 \<le> r \<and> r < gdbarch_num_regs (arch rc)
               \<and> (\<forall>j. 0 \<le> j \<and> j \<le> r \<longrightarrow> 0 \<le> sint (register_size (arch rc) j)
                                            \<and> sint (register_size (arch rc) j) \<le> 16) \<longrightarrow>
              (r, fst (read_of (cg cpu) (arch rc) buf r), snd (read_of (cg cpu) (arch rc) buf r))
                 \<in> set (fs_calls (snd (fetch_registers_cpu cg cpu buf rc i)))
            \<and> regs (fs_cache (snd (fetch_registers_cpu cg cpu buf rc i))) r
                 = Some (entry_after_read (arch rc) r (fst (read_of (cg cpu) (arch rc) buf r))
                           (snd (read_of (cg cpu) (arch rc) buf r)))
            \<and> (r, fst (read_of g (arch rc) buf r), snd (read_of g (arch rc) buf r))
                 \<in> set (fs_calls (snd (fetch_registers_task g buf rc (-1))))
            \<and> regs (fs_cache (snd (fetch_registers_task g buf rc (-1)))) r
                 = Some (entry_after_read (arch rc) r (fst (read_of g (arch rc) buf r))
                           (snd (read_of g (arch rc) buf r))))
       \<and> ((\<forall>j. 0 \<le> j \<and> j < gdbarch_num_regs (arch rc) \<longrightarrow>
                0 \<le> sint (register_size (arch rc) j)
              \<and> sint (register_size (arch rc) j) \<le> 16) \<longrightarrow>
              fst (fetch_registers_cpu cg cpu buf rc i) = Inr ()
            \<and> map fst (fs_calls (snd (fetch_registers_cpu cg cpu buf rc i)))
                 = [0..gdbarch_num_regs (arch rc) - 1]
            \<and> fst (fetch_registers_task g buf rc (-1)) = Inr ()
            \<and> map fst (fs_calls (snd (fetch_registers_task g buf rc (-1))))
                 = [0..gdbarch_num_regs (arch rc) - 1])
       \<and> (\<forall>n. n < -1 \<longrightarrow>
              fetch_registers_task g buf rc n
                = (Inr (), \<lparr>fs_cache = rc, fs_regval = buf, fs_calls = []\<rparr>))"
proof -
  let ?fs = "\<lparr>fs_cache = rc, fs_regval = buf, fs_calls = []\<rparr>"
  have frame: "regs (fs_cache (snd (fetch_registers_task g buf rc regno))) j = regs rc j
      \<and> (\<forall>c \<in> set (fs_calls (snd (fetch_registers_task g buf rc regno))). fst c = regno)"
    if "j \<noteq> regno" for j
  proof (cases rule: fetch_body_cases [of "arch rc" regno g ?fs])
    case error
    then show ?thesis using assms by (simp add: fetch_registers_task_single)
  next
    case (ok ret bytes)
    then show ?thesis using assms that
      by (simp add: fetch_registers_task_single raw_supply_other)
  qed
  have calls: "\<forall>c \<in> set (fs_calls (snd (fetch_registers_task g buf rc regno))). fst c = regno"
    using frame [of "regno + 1"] by simp
  have fits: "\<exists>ret bytes.
                g regno (gdbarch_register_name (arch rc) regno) (register_size (arch rc) regno) buf
                  = (ret, bytes)
              \<and> fetch_registers_task g buf rc regno =
                  (Inr (), \<lparr>fs_cache = rc\<lparr>regs := (regs rc)(regno \<mapsto>
                                           entry_after_read (arch rc) regno ret bytes)\<rparr>,
                             fs_regval = bytes, fs_calls = [(regno, ret, bytes)]\<rparr>)"
    if "0 \<le> sint (register_size (arch rc) regno) \<and> sint (register_size (arch rc) regno) \<le> 16"
  proof -
    have fit: "\<not> exceeds_regval (register_size (arch rc) regno)"
      using that by (simp add: exceeds_regval_iff)
    obtain ret bytes where prim:
      "g regno (gdbarch_register_name (arch rc) regno) (register_size (arch rc) regno) buf
         = (ret, bytes)"
      by (cases "g regno (gdbarch_register_name (arch rc) regno) (register_size (arch rc) regno) buf")
    show ?thesis
      using fetch_registers_task_fits [where g = g and buf = buf, OF assms fit prim] prim
      by blast
  qed
  have ignore: "fetch_registers_cpu cg cpu buf rc i = fetch_registers_cpu cg cpu buf rc (-1)"
    by (simp add: fetch_registers_cpu_loop)
  have same: "fetch_registers_task (cg cpu) buf rc (-1) = fetch_registers_cpu cg cpu buf rc i"
    by (simp add: fetch_registers_cpu_loop fetch_registers_task_all)
  have reads: "(r, fst (read_of h (arch rc) buf r), snd (read_of h (arch rc) buf r))
                 \<in> set (fs_calls (snd (fetch_loop_cpu h (arch rc) 0 ?fs)))
            \<and> regs (fs_cache (snd (fetch_loop_cpu h (arch rc) 0 ?fs))) r
                 = Some (entry_after_read (arch rc) r (fst (read_of h (arch rc) buf r))
                           (snd (read_of h (arch rc) buf r)))"
    if "0 \<le> r \<and> r < gdbarch_num_regs (arch rc)
               \<and> (\<forall>j. 0 \<le> j \<and> j \<le> r \<longrightarrow> 0 \<le> sint (register_size (arch rc) j)
                                            \<and> sint (register_size (arch rc) j) \<le> 16)" for h r
    using that by (intro fetch_all_reads) simp_all
  have every: "fst (fetch_loop_cpu h (arch rc) 0 ?fs) = Inr ()
            \<and> map fst (fs_calls (snd (fetch_loop_cpu h (arch rc) 0 ?fs)))
                 = [0..gdbarch_num_regs (arch rc) - 1]"
    if "\<forall>j. 0 \<le> j \<and> j < gdbarch_num_regs (arch rc) \<longrightarrow>
                0 \<le> sint (register_size (arch rc) j)
              \<and> sint (register_size (arch rc) j) \<le> 16" for h
    using that by (rule fetch_all_completes)
  have skipped: "fetch_registers_task g buf rc n = (Inr (), ?fs)" if "n < -1" for n
    using that by (rule fetch_registers_task_nothing)
  have first: "(\<forall>j. j \<noteq> regno \<longrightarrow>
            regs (fs_cache (snd (fetch_registers_task g buf rc regno))) j = regs rc j)"
    using frame by blast
  show ?thesis
    apply (intro conjI)
    subgoal by (rule first)
    subgoal by (rule calls)
    subgoal using fits by blast
    subgoal by (rule ignore)
    subgoal by (rule same)
    subgoal unfolding fetch_registers_cpu_loop fetch_registers_task_all using reads by blast
    subgoal unfolding fetch_registers_cpu_loop fetch_registers_task_all using every by blast
    subgoal by (intro allI impI) (rule skipped)
    done
qed

text \<open>The theorem at register 0 of \<open>arch_fits\<close>, and for the indices 0, -1 and -2.\<close>

theorem fetch_registers_regno_witness:
  "(0::int) \<le> 0
   \<and> regs (fs_cache (snd (fetch_registers_task get_reg_example [] (empty_regcache arch_fits) 0))) 1
       = regs (empty_regcache arch_fits) 1
   \<and> (\<exists>ret bytes.
          get_reg_example 0 (gdbarch_register_name (arch (empty_regcache arch_fits)) 0)
            (register_size (arch (empty_regcache arch_fits)) 0) [] = (ret, bytes)
        \<and> fetch_registers_task get_reg_example [] (empty_regcache arch_fits) 0 =
            (Inr (), \<lparr>fs_cache = (empty_regcache arch_fits)\<lparr>regs := (regs (empty_regcache arch_fits))(0 \<mapsto>
                                     entry_after_read (arch (empty_regcache arch_fits)) 0 ret bytes)\<rparr>,
                       fs_regval = bytes, fs_calls = [(0, ret, bytes)]\<rparr>))
   \<and> fst (fetch_registers_cpu (crash_get_cpu_reg env_example) 0 [] (empty_regcache arch_fits) 0)
       = Inr ()
   \<and> map fst (fs_calls (snd (fetch_registers_cpu (crash_get_cpu_reg env_example) 0 []
                                (empty_regcache arch_fits) 0)))
       = [0..gdbarch_num_regs (arch (empty_regcache arch_fits)) - 1]
   \<and> regs (fs_cache (snd (fetch_registers_task get_reg_example [] (empty_regcache arch_fits) (-1)))) 1
       = Some (entry_after_read (arch (empty_regcache arch_fits)) 1
                 (fst (read_of get_reg_example (arch (empty_regcache arch_fits)) [] 1))
                 (snd (read_of get_reg_example (arch (empty_regcache arch_fits)) [] 1)))
   \<and> fetch_registers_task get_reg_example [] (empty_regcache arch_fits) (-2)
       = (Inr (), \<lparr>fs_cache = empty_regcache arch_fits, fs_regval = [], fs_calls = []\<rparr>)"
proof -
  have h1: "(0::int) \<le> 0" by simp
  have h2: "0 \<le> sint (register_size (arch (empty_regcache arch_fits)) 0)
      \<and> sint (register_size (arch (empty_regcache arch_fits)) 0) \<le> 16"
    by (simp add: empty_regcache_def arch_fits_def)
  have h3: "(1::int) \<noteq> 0" by simp
  have h4: "\<forall>j. 0 \<le> j \<and> j < gdbarch_num_regs (arch (empty_regcache arch_fits)) \<longrightarrow>
                0 \<le> sint (register_size (arch (empty_regcache arch_fits)) j)
              \<and> sint (register_size (arch (empty_regcache arch_fits)) j) \<le> 16"
    by (simp add: empty_regcache_def arch_fits_def)
  have h5: "0 \<le> (1::int) \<and> 1 < gdbarch_num_regs (arch (empty_regcache arch_fits))
               \<and> (\<forall>j. 0 \<le> j \<and> j \<le> 1 \<longrightarrow>
                      0 \<le> sint (register_size (arch (empty_regcache arch_fits)) j)
                    \<and> sint (register_size (arch (empty_regcache arch_fits)) j) \<le> 16)"
    by (simp add: empty_regcache_def arch_fits_def)
  have h6: "(-2::int) < -1" by simp
  note t = fetch_registers_regno [OF h1, of get_reg_example "[]" "empty_regcache arch_fits"
        "crash_get_cpu_reg env_example" 0 0]
  have c1: "regs (fs_cache (snd (fetch_registers_task get_reg_example []
                (empty_regcache arch_fits) 0))) 1 = regs (empty_regcache arch_fits) 1"
    using t h3 by blast
  have c2: "\<exists>ret bytes.
          get_reg_example 0 (gdbarch_register_name (arch (empty_regcache arch_fits)) 0)
            (register_size (arch (empty_regcache arch_fits)) 0) [] = (ret, bytes)
        \<and> fetch_registers_task get_reg_example [] (empty_regcache arch_fits) 0 =
            (Inr (), \<lparr>fs_cache = (empty_regcache arch_fits)\<lparr>regs := (regs (empty_regcache arch_fits))(0 \<mapsto>
                                     entry_after_read (arch (empty_regcache arch_fits)) 0 ret bytes)\<rparr>,
                       fs_regval = bytes, fs_calls = [(0, ret, bytes)]\<rparr>)"
    using t h2 by blast
  have c3: "fst (fetch_registers_cpu (crash_get_cpu_reg env_example) 0 []
                  (empty_regcache arch_fits) 0) = Inr ()
      \<and> map fst (fs_calls (snd (fetch_registers_cpu (crash_get_cpu_reg env_example) 0 []
                                (empty_regcache arch_fits) 0)))
          = [0..gdbarch_num_regs (arch (empty_regcache arch_fits)) - 1]"
    using t h4 by blast
  have c4: "regs (fs_cache (snd (fetch_registers_task get_reg_example []
                (empty_regcache arch_fits) (-1)))) 1
       = Some (entry_after_read (arch (empty_regcache arch_fits)) 1
                 (fst (read_of get_reg_example (arch (empty_regcache arch_fits)) [] 1))
                 (snd (read_of get_reg_example (arch (empty_regcache arch_fits)) [] 1)))"
    using t h5 by blast
  have c5: "fetch_registers_task get_reg_example [] (empty_regcache arch_fits) (-2)
       = (Inr (), \<lparr>fs_cache = empty_regcache arch_fits, fs_regval = [], fs_calls = []\<rparr>)"
    using t h6 by blast
  show ?thesis using h1 c1 c2 c3 c4 c5 by blast
qed

text \<open>
  Against C8 as stated: the per-CPU fetch called with the register index 0 reads the registers
  0 and 1 and changes the entry of register 1.
\<close>

theorem fetch_registers_cpu_regno_counterexample:
  "regs (fs_cache (snd (fetch_registers_cpu (crash_get_cpu_reg env_example) 0 []
                          (empty_regcache arch_fits) 0))) 1 = Some REG_UNAVAILABLE
   \<and> regs (empty_regcache arch_fits) 1 = None
   \<and> map fst (fs_calls (snd (fetch_registers_cpu (crash_get_cpu_reg env_example) 0 []
                          (empty_regcache arch_fits) 0))) = [0, 1]"
proof -
  let ?fs = "\<lparr>fs_cache = empty_regcache arch_fits, fs_regval = [], fs_calls = []\<rparr>"
  have run: "fetch_loop_cpu get_reg_example arch_fits 0 ?fs =
     (Inr (),
      \<lparr>fs_cache = \<lparr>arch = arch_fits,
                   regs = [0 \<mapsto> REG_VALID (replicate 8 42), 1 \<mapsto> REG_UNAVAILABLE]\<rparr>,
       fs_regval = replicate 8 42,
       fs_calls = [(0, 1, replicate 8 42), (1, 0, replicate 8 42)]\<rparr>)"
    by (simp add: fetch_loop_cpu.simps fetch_body_def exceeds_regval_iff raw_supply_def
        empty_regcache_def arch_fits_def get_reg_example_def)
  have cpu: "fetch_registers_cpu (crash_get_cpu_reg env_example) 0 [] (empty_regcache arch_fits) 0
      = fetch_loop_cpu get_reg_example arch_fits 0 ?fs"
    by (simp add: fetch_registers_cpu_def env_example_def empty_regcache_def)
  show ?thesis unfolding cpu run by (simp add: empty_regcache_def)
qed

section \<open>Claims on the memory transfer\<close>

text \<open>
  Claim C5.  A memory-transfer request (the same code in both variants) whose object kind is
  none of main memory, stack memory and code memory returns the I/O-class failure
  \<open>TARGET_XFER_E_IO\<close> and changes nothing: in particular crash's memory primitive is not
  called, so a call count of 0 stays 0.
\<close>
theorem xfer_partial_other_object:
  assumes "object \<noteq> TARGET_OBJECT_MEMORY" and "object \<noteq> TARGET_OBJECT_STACK_MEMORY"
    and "object \<noteq> TARGET_OBJECT_CODE_MEMORY"
  shows "xfer_partial gdb_readmem_callback object annex offset len st = (TARGET_XFER_E_IO, st)
       \<and> length (readmem_calls (snd (xfer_partial gdb_readmem_callback object annex offset len st)))
           = length (readmem_calls st)"
  using assms by (simp add: xfer_partial_def)

text \<open>The theorem at a request for the auxiliary vector.\<close>

theorem xfer_partial_other_object_witness:
  "TARGET_OBJECT_AUXV \<noteq> TARGET_OBJECT_MEMORY \<and> TARGET_OBJECT_AUXV \<noteq> TARGET_OBJECT_STACK_MEMORY
   \<and> TARGET_OBJECT_AUXV \<noteq> TARGET_OBJECT_CODE_MEMORY
   \<and> xfer_partial readmem_example TARGET_OBJECT_AUXV None 0x1000 64 xfer_state_example
        = (TARGET_XFER_E_IO, xfer_state_example)
   \<and> length (readmem_calls (snd (xfer_partial readmem_example TARGET_OBJECT_AUXV None 0x1000 64
                                   xfer_state_example))) = 0"
proof -
  have h1: "TARGET_OBJECT_AUXV \<noteq> TARGET_OBJECT_MEMORY" by simp
  have h2: "TARGET_OBJECT_AUXV \<noteq> TARGET_OBJECT_STACK_MEMORY" by simp
  have h3: "TARGET_OBJECT_AUXV \<noteq> TARGET_OBJECT_CODE_MEMORY" by simp
  show ?thesis
    using xfer_partial_other_object [OF h1 h2 h3, of readmem_example None "0x1000" 64
        xfer_state_example]
    by (simp add: xfer_state_example_def)
qed

text \<open>
  Claim C6.  For a memory-transfer request with an allowed object kind, the primitive is
  called once; if it reports success (a nonzero return code) the transfer returns
  \<open>TARGET_XFER_OK\<close> and stores the full requested length in \<^verbatim>\<open>*xfered_len\<close>; if it
  reports failure the transfer returns \<open>TARGET_XFER_E_IO\<close> and leaves \<^verbatim>\<open>*xfered_len\<close>
  alone.
\<close>
theorem xfer_partial_memory:
  assumes "object = TARGET_OBJECT_MEMORY \<or> object = TARGET_OBJECT_STACK_MEMORY
             \<or> object = TARGET_OBJECT_CODE_MEMORY"
    and "gdb_readmem_callback offset (if readbuf st \<noteq> None then readbuf st else writebuf st)
           (sint (ucast len :: 32 word)) (if readbuf st = None then 1 else 0) = (ret, buf)"
  shows "(ret \<noteq> 0 \<longrightarrow>
            fst (xfer_partial gdb_readmem_callback object annex offset len st) = TARGET_XFER_OK
          \<and> xfered_len (snd (xfer_partial gdb_readmem_callback object annex offset len st)) = len)
       \<and> (ret = 0 \<longrightarrow>
            fst (xfer_partial gdb_readmem_callback object annex offset len st) = TARGET_XFER_E_IO
          \<and> xfered_len (snd (xfer_partial gdb_readmem_callback object annex offset len st))
              = xfered_len st)
       \<and> readmem_calls (snd (xfer_partial gdb_readmem_callback object annex offset len st))
           = readmem_calls st @ [(offset, sint (ucast len :: 32 word),
                                  if readbuf st = None then 1 else 0)]"
  using assms by (auto simp: xfer_partial_def Let_def)

text \<open>
  The theorem at a 64-byte read of stack memory at \<open>0x1000\<close>, where the example primitive
  succeeds (64 bytes are reported), and at \<open>0x9000\<close>, where it fails.
\<close>

theorem xfer_partial_memory_witness:
  "(TARGET_OBJECT_STACK_MEMORY = TARGET_OBJECT_MEMORY
      \<or> TARGET_OBJECT_STACK_MEMORY = TARGET_OBJECT_STACK_MEMORY
      \<or> TARGET_OBJECT_STACK_MEMORY = TARGET_OBJECT_CODE_MEMORY)
   \<and> readmem_example 0x1000 (readbuf xfer_state_example) 64 0 = (1, readbuf xfer_state_example)
   \<and> fst (xfer_partial readmem_example TARGET_OBJECT_STACK_MEMORY None 0x1000 64 xfer_state_example)
        = TARGET_XFER_OK
   \<and> xfered_len (snd (xfer_partial readmem_example TARGET_OBJECT_STACK_MEMORY None 0x1000 64
                         xfer_state_example)) = 64
   \<and> readmem_example 0x9000 (readbuf xfer_state_example) 64 0 = (0, readbuf xfer_state_example)
   \<and> fst (xfer_partial readmem_example TARGET_OBJECT_STACK_MEMORY None 0x9000 64 xfer_state_example)
        = TARGET_XFER_E_IO"
proof -
  have h1: "TARGET_OBJECT_STACK_MEMORY = TARGET_OBJECT_MEMORY
      \<or> TARGET_OBJECT_STACK_MEMORY = TARGET_OBJECT_STACK_MEMORY
      \<or> TARGET_OBJECT_STACK_MEMORY = TARGET_OBJECT_CODE_MEMORY" by simp
  have rb: "readbuf xfer_state_example \<noteq> None" by (simp add: xfer_state_example_def)
  have n: "sint (ucast (64 :: 64 word) :: 32 word) = 64" by simp
  have h2: "readmem_example 0x1000
              (if readbuf xfer_state_example \<noteq> None then readbuf xfer_state_example
               else writebuf xfer_state_example)
              (sint (ucast (64 :: 64 word) :: 32 word))
              (if readbuf xfer_state_example = None then 1 else 0)
            = (1, readbuf xfer_state_example)"
    using rb by (simp add: readmem_example_def)
  have h3: "readmem_example 0x9000
              (if readbuf xfer_state_example \<noteq> None then readbuf xfer_state_example
               else writebuf xfer_state_example)
              (sint (ucast (64 :: 64 word) :: 32 word))
              (if readbuf xfer_state_example = None then 1 else 0)
            = (0, readbuf xfer_state_example)"
    using rb by (simp add: readmem_example_def)
  show ?thesis
    using xfer_partial_memory [where gdb_readmem_callback = readmem_example
          and st = xfer_state_example and offset = "0x1000" and len = 64 and annex = None,
          OF h1 h2]
      xfer_partial_memory [where gdb_readmem_callback = readmem_example
          and st = xfer_state_example and offset = "0x9000" and len = 64 and annex = None,
          OF h1 h3]
      h1 h2 h3 rb n
    by simp
qed

section \<open>Claims on the per-task notification\<close>

text \<open>
  Claim C9.  The per-task \<^verbatim>\<open>gdb_change_thread_context\<close> returns \<open>TRUE\<close> for every task
  handle, in every state: it has no failure path.  The per-CPU one can return \<open>FALSE\<close>, as
  it does in the example environment for the task handle 0.
\<close>
theorem gdb_change_thread_context_task_succeeds:
  "fst (gdb_change_thread_context_task s task) = TRUE
   \<and> fst (gdb_change_thread_context_cpu env_example s' 0) = Inr FALSE
   \<and> TRUE \<noteq> FALSE"
  by (simp add: gdb_change_thread_context_task_def gdb_change_thread_context_cpu_def
      env_example_def TRUE_def FALSE_def Let_def)

text \<open>
  Claim C10.  The initial value of the Previous-Context Marker is the integer 0.  A
  notification with task handle 0 that finds the marker at 0, as the first notification does,
  returns \<open>TRUE\<close> and leaves the state as it is: no register or frame-cache invalidation, the
  marker still 0.
\<close>
theorem gdb_change_thread_context_task_zero:
  "prev_task (initial_task_state rc) = 0
   \<and> (prev_task s = 0 \<longrightarrow> gdb_change_thread_context_task s 0 = (TRUE, s))"
  by (simp add: gdb_change_thread_context_task_def initial_task_state_def)

text \<open>The theorem at the initial state.\<close>

theorem gdb_change_thread_context_task_zero_witness:
  "prev_task (initial_task_state (empty_regcache arch_fits)) = 0
   \<and> gdb_change_thread_context_task (initial_task_state (empty_regcache arch_fits)) 0
       = (TRUE, initial_task_state (empty_regcache arch_fits))
   \<and> registers_changed_calls
        (snd (gdb_change_thread_context_task (initial_task_state (empty_regcache arch_fits)) 0)) = 0
   \<and> reinit_frame_cache_calls
        (snd (gdb_change_thread_context_task (initial_task_state (empty_regcache arch_fits)) 0)) = 0"
proof -
  have h: "prev_task (initial_task_state (empty_regcache arch_fits)) = 0"
    by (simp add: initial_task_state_def)
  have c: "registers_changed_calls (initial_task_state (empty_regcache arch_fits)) = 0
      \<and> reinit_frame_cache_calls (initial_task_state (empty_regcache arch_fits)) = 0"
    by (simp add: initial_task_state_def)
  show ?thesis
    using gdb_change_thread_context_task_zero
      [of "empty_regcache arch_fits" "initial_task_state (empty_regcache arch_fits)"] h c
    by simp
qed

text \<open>The two branches of the per-task notification.\<close>

lemma task_same: "task = prev_task s \<Longrightarrow> gdb_change_thread_context_task s task = (TRUE, s)"
  by (simp add: gdb_change_thread_context_task_def)

lemma task_changed:
  "task \<noteq> prev_task s \<Longrightarrow>
   gdb_change_thread_context_task s task =
     (TRUE, \<lparr>prev_task = task,
             thread_regcache = (thread_regcache s)\<lparr>regs := Map.empty\<rparr>,
             registers_changed_calls = registers_changed_calls s + 1,
             reinit_frame_cache_calls = reinit_frame_cache_calls s + 1\<rparr>)"
  by (simp add: gdb_change_thread_context_task_def registers_changed_def
      reinit_frame_cache_task_def Let_def)

lemma task_marker: "prev_task (snd (gdb_change_thread_context_task s task)) = task"
  by (cases "task = prev_task s") (simp_all add: task_same task_changed)

text \<open>
  Claim C1, as amended.  In every state, of two consecutive notifications with the same task
  handle the second returns \<open>TRUE\<close> and changes nothing.  The two together make exactly one
  call of \<^verbatim>\<open>registers_changed\<close> and one of \<^verbatim>\<open>reinit_frame_cache\<close> when the handle
  differs from the Previous-Context Marker before the first of them, and none when it equals
  it.  For the notifications 5, 5, 7 from the initial state the counts after the calls are
  1, 1 and 2, and the marker ends at 7.
\<close>
theorem gdb_change_thread_context_task_repeated:
  "fst (gdb_change_thread_context_task (snd (gdb_change_thread_context_task s task)) task) = TRUE
   \<and> snd (gdb_change_thread_context_task (snd (gdb_change_thread_context_task s task)) task)
       = snd (gdb_change_thread_context_task s task)
   \<and> (task \<noteq> prev_task s \<longrightarrow>
        registers_changed_calls (notifications_task s [task, task]) = registers_changed_calls s + 1
      \<and> reinit_frame_cache_calls (notifications_task s [task, task])
          = reinit_frame_cache_calls s + 1)
   \<and> (task = prev_task s \<longrightarrow> notifications_task s [task, task] = s)
   \<and> registers_changed_calls (notifications_task (initial_task_state rc) [5]) = 1
   \<and> reinit_frame_cache_calls (notifications_task (initial_task_state rc) [5]) = 1
   \<and> registers_changed_calls (notifications_task (initial_task_state rc) [5, 5]) = 1
   \<and> reinit_frame_cache_calls (notifications_task (initial_task_state rc) [5, 5]) = 1
   \<and> registers_changed_calls (notifications_task (initial_task_state rc) [5, 5, 7]) = 2
   \<and> reinit_frame_cache_calls (notifications_task (initial_task_state rc) [5, 5, 7]) = 2
   \<and> prev_task (notifications_task (initial_task_state rc) [5, 5, 7]) = 7"
proof -
  have second: "gdb_change_thread_context_task (snd (gdb_change_thread_context_task s task)) task
                  = (TRUE, snd (gdb_change_thread_context_task s task))"
    by (rule task_same) (simp add: task_marker)
  have pair: "notifications_task s [task, task] = snd (gdb_change_thread_context_task s task)"
    by (simp add: second)
  have one: "registers_changed_calls (notifications_task s [task, task])
                 = registers_changed_calls s + 1
      \<and> reinit_frame_cache_calls (notifications_task s [task, task])
          = reinit_frame_cache_calls s + 1" if "task \<noteq> prev_task s"
    unfolding pair using that by (simp add: task_changed)
  have none: "notifications_task s [task, task] = s" if "task = prev_task s"
    unfolding pair using that by (simp add: task_same)
  have scen: "registers_changed_calls (notifications_task (initial_task_state rc) [5]) = 1
   \<and> reinit_frame_cache_calls (notifications_task (initial_task_state rc) [5]) = 1
   \<and> registers_changed_calls (notifications_task (initial_task_state rc) [5, 5]) = 1
   \<and> reinit_frame_cache_calls (notifications_task (initial_task_state rc) [5, 5]) = 1
   \<and> registers_changed_calls (notifications_task (initial_task_state rc) [5, 5, 7]) = 2
   \<and> reinit_frame_cache_calls (notifications_task (initial_task_state rc) [5, 5, 7]) = 2
   \<and> prev_task (notifications_task (initial_task_state rc) [5, 5, 7]) = 7"
    by (simp add: gdb_change_thread_context_task_def registers_changed_def
        reinit_frame_cache_task_def initial_task_state_def Let_def)
  show ?thesis using second one none scen by simp
qed

text \<open>The theorem at the initial state, for the handles 5 and 0.\<close>

theorem gdb_change_thread_context_task_repeated_witness:
  "(5 :: ulong) \<noteq> prev_task (initial_task_state (empty_regcache arch_fits))
   \<and> registers_changed_calls (notifications_task (initial_task_state (empty_regcache arch_fits)) [5, 5])
       = registers_changed_calls (initial_task_state (empty_regcache arch_fits)) + 1
   \<and> reinit_frame_cache_calls (notifications_task (initial_task_state (empty_regcache arch_fits)) [5, 5])
       = reinit_frame_cache_calls (initial_task_state (empty_regcache arch_fits)) + 1
   \<and> (0 :: ulong) = prev_task (initial_task_state (empty_regcache arch_fits))
   \<and> notifications_task (initial_task_state (empty_regcache arch_fits)) [0, 0]
       = initial_task_state (empty_regcache arch_fits)"
proof -
  have h1: "(5 :: ulong) \<noteq> prev_task (initial_task_state (empty_regcache arch_fits))"
    by (simp add: initial_task_state_def)
  have h2: "(0 :: ulong) = prev_task (initial_task_state (empty_regcache arch_fits))"
    by (simp add: initial_task_state_def)
  show ?thesis
    using gdb_change_thread_context_task_repeated
        [of "initial_task_state (empty_regcache arch_fits)" 5]
      gdb_change_thread_context_task_repeated
        [of "initial_task_state (empty_regcache arch_fits)" 0] h1 h2
    by blast
qed

text \<open>
  Against C1 as stated: from the initial state the two notifications 0, 0 make no
  invalidation at all; and of the notifications 5, 5, 5 the second and the third, two
  consecutive notifications with the same handle, make none either.
\<close>

theorem gdb_change_thread_context_task_repeated_counterexample:
  "registers_changed_calls (notifications_task (initial_task_state (empty_regcache arch_fits)) [0, 0])
     = 0
   \<and> reinit_frame_cache_calls (notifications_task (initial_task_state (empty_regcache arch_fits)) [0, 0])
     = 0
   \<and> registers_changed_calls (notifications_task (initial_task_state (empty_regcache arch_fits)) [0, 0])
     \<noteq> registers_changed_calls (initial_task_state (empty_regcache arch_fits)) + 1
   \<and> reinit_frame_cache_calls (notifications_task (initial_task_state (empty_regcache arch_fits)) [0, 0])
     \<noteq> reinit_frame_cache_calls (initial_task_state (empty_regcache arch_fits)) + 1
   \<and> registers_changed_calls (notifications_task (initial_task_state (empty_regcache arch_fits)) [5, 5, 5])
     = registers_changed_calls (notifications_task (initial_task_state (empty_regcache arch_fits)) [5])
   \<and> reinit_frame_cache_calls (notifications_task (initial_task_state (empty_regcache arch_fits)) [5, 5, 5])
     = reinit_frame_cache_calls (notifications_task (initial_task_state (empty_regcache arch_fits)) [5])"
  by (simp add: gdb_change_thread_context_task_def registers_changed_def
      reinit_frame_cache_task_def initial_task_state_def Let_def)

section \<open>Lemmas on the per-CPU notification\<close>

text \<open>Lookup in a thread list that has grown by one record at its end.\<close>

lemma find_thread_ptid_append:
  "find_thread_ptid (s\<lparr>thread_list := thread_list s @ [t]\<rparr>) cpu =
     (case find_thread_ptid s cpu of
        None \<Rightarrow> if ti_tid t = cpu then Some t else None
      | Some tp \<Rightarrow> Some tp)"
proof -
  have "List.find P (xs @ [t]) =
          (case List.find P xs of None \<Rightarrow> if P t then Some t else None | Some x \<Rightarrow> Some x)"
    for P :: "thread_info \<Rightarrow> bool" and xs
    by (induction xs) simp_all
  then show ?thesis by (simp add: find_thread_ptid_def)
qed

lemma find_thread_ptid_None: 
  "find_thread_ptid s cpu = None \<longleftrightarrow> cpu \<notin> set (map ti_tid (thread_list s))"
  by (auto simp: find_thread_ptid_def find_None_iff)

lemma find_thread_ptid_cong:
  "thread_list s' = thread_list s \<Longrightarrow> find_thread_ptid s' cpu = find_thread_ptid s cpu"
  by (simp add: find_thread_ptid_def)

lemma target_fetch_registers_frame:
  "thread_list (snd (target_fetch_registers env s tp regno)) = thread_list s
   \<and> add_thread_calls (snd (target_fetch_registers env s tp regno)) = add_thread_calls s
   \<and> highest_thread_num (snd (target_fetch_registers env s tp regno)) = highest_thread_num s
   \<and> inferior_tid (snd (target_fetch_registers env s tp regno)) = inferior_tid s
   \<and> frame_cache_resets (snd (target_fetch_registers env s tp regno)) = frame_cache_resets s"
  by (simp add: target_fetch_registers_def Let_def split: prod.split)

lemma target_fetch_registers_fst:
  "fst (target_fetch_registers env s tp regno) =
     fst (fetch_registers_cpu (crash_get_cpu_reg env) (inferior_tid s) (regval_uninit env)
            (regcaches s (ti_tid tp)) regno)"
  by (simp add: target_fetch_registers_def get_thread_regcache_def Let_def split: prod.split)

lemma change_context_to_frame:
  "thread_list (snd (change_context_to env s tp)) = thread_list s
   \<and> add_thread_calls (snd (change_context_to env s tp)) = add_thread_calls s
   \<and> highest_thread_num (snd (change_context_to env s tp)) = highest_thread_num s"
proof (cases "target_fetch_registers env s tp (-1)")
  case (Pair res s1)
  then have "s1 = snd (target_fetch_registers env s tp (-1))" by simp
  then have "thread_list s1 = thread_list s \<and> add_thread_calls s1 = add_thread_calls s
      \<and> highest_thread_num s1 = highest_thread_num s"
    using target_fetch_registers_frame [of env s tp "-1"] by simp
  then show ?thesis using Pair
    by (cases res) (simp_all add: change_context_to_def switch_to_thread_def
        reinit_frame_cache_cpu_def)
qed

lemma change_context_to_not_FALSE: "fst (change_context_to env s tp) \<noteq> Inr FALSE"
  by (simp add: change_context_to_def TRUE_def FALSE_def split: prod.split sum.split)

lemma change_context_to_TRUE:
  assumes "fst (target_fetch_registers env s tp (-1)) = Inr ()"
  shows "fst (change_context_to env s tp) = Inr TRUE
       \<and> inferior_tid (snd (change_context_to env s tp)) = ti_tid tp
       \<and> frame_cache_resets (snd (change_context_to env s tp)) = frame_cache_resets s + 1"
proof (cases "target_fetch_registers env s tp (-1)")
  case (Pair res s1)
  with assms have res: "res = Inr ()" by simp
  have "s1 = snd (target_fetch_registers env s tp (-1))" using Pair by simp
  then have "frame_cache_resets s1 = frame_cache_resets s"
    using target_fetch_registers_frame [of env s tp "-1"] by simp
  then show ?thesis using Pair res
    by (simp add: change_context_to_def switch_to_thread_def reinit_frame_cache_cpu_def)
qed

lemma change_context_to_abort:
  assumes "fst (target_fetch_registers env s tp (-1)) = Inl e"
  shows "fst (change_context_to env s tp) = Inl e
       \<and> inferior_tid (snd (change_context_to env s tp)) = inferior_tid s
       \<and> frame_cache_resets (snd (change_context_to env s tp)) = frame_cache_resets s"
proof (cases "target_fetch_registers env s tp (-1)")
  case (Pair res s1)
  with assms have res: "res = Inl e" by simp
  have "s1 = snd (target_fetch_registers env s tp (-1))" using Pair by simp
  then have "frame_cache_resets s1 = frame_cache_resets s \<and> inferior_tid s1 = inferior_tid s"
    using target_fetch_registers_frame [of env s tp "-1"] by simp
  then show ?thesis using Pair res by (simp add: change_context_to_def)
qed

lemma change_context_retry_found:
  "find_thread_ptid s cpu = Some tp \<Longrightarrow>
   change_context_retry env cpu tried s = change_context_to env s tp"
  by (subst change_context_retry.simps) simp

lemma change_context_retry_fails:
  "find_thread_ptid s cpu = None \<Longrightarrow> add_thread_null env cpu \<Longrightarrow>
   change_context_retry env cpu 0 s =
     (Inr FALSE, s\<lparr>add_thread_calls := add_thread_calls s @ [cpu]\<rparr>)"
  by (subst change_context_retry.simps) (simp add: add_thread_silent_def)

lemma change_context_retry_creates:
  assumes "find_thread_ptid s cpu = None" and "\<not> add_thread_null env cpu"
  shows "change_context_retry env cpu 0 s =
     change_context_to env
       (s\<lparr>thread_list := thread_list s @ [\<lparr>ti_num = highest_thread_num s + 1, ti_tid = cpu\<rparr>],
          highest_thread_num := highest_thread_num s + 1,
          add_thread_calls := add_thread_calls s @ [cpu]\<rparr>)
       \<lparr>ti_num = highest_thread_num s + 1, ti_tid = cpu\<rparr>"
proof -
  let ?t = "\<lparr>ti_num = highest_thread_num s + 1, ti_tid = cpu\<rparr>"
  let ?s1 = "s\<lparr>thread_list := thread_list s @ [?t],
          highest_thread_num := highest_thread_num s + 1,
          add_thread_calls := add_thread_calls s @ [cpu]\<rparr>"
  have add: "add_thread_silent env s cpu = (Some ?t, ?s1)"
    using assms(2) by (simp add: add_thread_silent_def Let_def)
  have "find_thread_ptid ?s1 cpu = find_thread_ptid (s\<lparr>thread_list := thread_list s @ [?t]\<rparr>) cpu"
    by (rule find_thread_ptid_cong) simp
  then have found: "find_thread_ptid ?s1 cpu = Some ?t"
    using assms(1) by (simp add: find_thread_ptid_append)
  have "change_context_retry env cpu 0 s = change_context_retry env cpu (0 + 1) ?s1"
    using assms(1) add by (subst change_context_retry.simps) simp
  then show ?thesis using change_context_retry_found [OF found] by simp
qed

section \<open>Claims on the per-CPU notification\<close>

text \<open>
  Claim C3.  A per-CPU notification whose task handle \<^verbatim>\<open>crash_set_thread\<close> maps to a
  negative CPU index returns \<open>FALSE\<close> and leaves gdb's state as it was: no thread record is
  created, the read primitive is not called and no register cache changes, the active thread
  stays, and \<^verbatim>\<open>reinit_frame_cache\<close> is not called.
\<close>
theorem gdb_change_thread_context_cpu_unresolved:
  assumes "crash_set_thread env task < 0"
  shows "gdb_change_thread_context_cpu env s task = (Inr FALSE, s)"
  using assms by (simp add: gdb_change_thread_context_cpu_def)

text \<open>The theorem at the task handle 0, which the example environment maps to -1.\<close>

theorem gdb_change_thread_context_cpu_unresolved_witness:
  "crash_set_thread env_example 0 < 0
   \<and> gdb_change_thread_context_cpu env_example (state_example arch_fits) 0
       = (Inr FALSE, state_example arch_fits)"
proof -
  have h: "crash_set_thread env_example 0 < 0" by (simp add: env_example_def)
  show ?thesis
    using gdb_change_thread_context_cpu_unresolved [OF h, of "state_example arch_fits"] h
    by simp
qed

text \<open>
  A notification only ever appends to the thread list, and keeps the CPU indices of the
  records distinct; so a record found once is found again after any further notifications.
\<close>

lemma thread_list_step:
  "\<exists>ts. thread_list (snd (gdb_change_thread_context_cpu env s task)) = thread_list s @ ts
     \<and> (distinct (map ti_tid (thread_list s)) \<longrightarrow>
          distinct (map ti_tid (thread_list s @ ts)))"
proof (cases "crash_set_thread env task < 0")
  case True
  then show ?thesis by (simp add: gdb_change_thread_context_cpu_def)
next
  case False
  let ?cpu = "crash_set_thread env task"
  have run: "gdb_change_thread_context_cpu env s task = change_context_retry env ?cpu 0 s"
    using False by (simp add: gdb_change_thread_context_cpu_def)
  show ?thesis
  proof (cases "find_thread_ptid s ?cpu")
    case (Some tp)
    then show ?thesis unfolding run
      by (simp add: change_context_retry_found change_context_to_frame)
  next
    case None
    show ?thesis
    proof (cases "add_thread_null env ?cpu")
      case True
      then show ?thesis unfolding run using None by (simp add: change_context_retry_fails)
    next
      case False
      have "?cpu \<notin> set (map ti_tid (thread_list s))"
        using None by (simp add: find_thread_ptid_None)
      then show ?thesis unfolding run change_context_retry_creates [OF None False]
        by (simp add: change_context_to_frame)
    qed
  qed
qed

lemma find_thread_ptid_step:
  assumes "find_thread_ptid s cpu = Some t"
  shows "find_thread_ptid (snd (gdb_change_thread_context_cpu env s task)) cpu = Some t"
proof -
  obtain ts where ts: "thread_list (snd (gdb_change_thread_context_cpu env s task))
      = thread_list s @ ts"
    using thread_list_step by blast
  have "List.find P (xs @ ys) = Some x" if "List.find P xs = Some x"
    for P :: "thread_info \<Rightarrow> bool" and xs ys x
    using that by (induction xs) (simp_all split: if_splits)
  then show ?thesis using assms ts by (simp add: find_thread_ptid_def)
qed

lemma find_thread_ptid_notifications:
  "find_thread_ptid s cpu = Some t \<Longrightarrow> find_thread_ptid (notifications_cpu s ns) cpu = Some t"
proof (induction ns arbitrary: s)
  case Nil
  then show ?case by simp
next
  case (Cons n ns)
  obtain env task where n: "n = (env, task)" by (cases n)
  show ?case using Cons.IH [OF find_thread_ptid_step [OF Cons.prems, of env task]] n by simp
qed

lemma distinct_notifications:
  "distinct (map ti_tid (thread_list s)) \<Longrightarrow>
   distinct (map ti_tid (thread_list (notifications_cpu s ns)))"
proof (induction ns arbitrary: s)
  case Nil
  then show ?case by simp
next
  case (Cons n ns)
  obtain env task where n: "n = (env, task)" by (cases n)
  have "distinct (map ti_tid (thread_list (snd (gdb_change_thread_context_cpu env s task))))"
    using thread_list_step [of env s task] Cons.prems by auto
  then show ?case using Cons.IH n by simp
qed


text \<open>When the fetch of all registers inside the notification completes, and when it aborts.\<close>

lemma target_fetch_registers_completes:
  assumes "\<forall>r. 0 \<le> r \<and> r < gdbarch_num_regs (arch (regcaches s (ti_tid tp))) \<longrightarrow>
             0 \<le> sint (register_size (arch (regcaches s (ti_tid tp))) r)
           \<and> sint (register_size (arch (regcaches s (ti_tid tp))) r) \<le> 16"
  shows "fst (target_fetch_registers env s tp regno) = Inr ()"
proof -
  let ?a = "arch (regcaches s (ti_tid tp))"
  have "\<forall>j. 0 \<le> j \<and> j < gdbarch_num_regs ?a \<longrightarrow> \<not> exceeds_regval (register_size ?a j)"
  proof (intro allI impI)
    fix j assume "0 \<le> j \<and> j < gdbarch_num_regs ?a"
    with assms have "0 \<le> sint (register_size ?a j) \<and> sint (register_size ?a j) \<le> 16"
      by blast
    then show "\<not> exceeds_regval (register_size ?a j)" by (simp add: exceeds_regval_iff)
  qed
  then show ?thesis
    by (simp add: target_fetch_registers_fst fetch_registers_cpu_loop fetch_loop_cpu_completes)
qed

lemma target_fetch_registers_aborts:
  assumes "0 \<le> r" and "r < gdbarch_num_regs (arch (regcaches s (ti_tid tp)))"
    and "16 < sint (register_size (arch (regcaches s (ti_tid tp))) r)"
  shows "fst (target_fetch_registers env s tp regno) = Inl ConfigurationError"
  using assms
  by (simp add: target_fetch_registers_fst fetch_registers_cpu_loop fetch_loop_cpu_aborts
      sint_wide)

text \<open>What the end of the notification does to the register caches and the call log.\<close>

lemma change_context_to_fetch:
  "regcaches (snd (change_context_to env s tp))
     = (regcaches s)(ti_tid tp := fs_cache (snd (fetch_registers_cpu (crash_get_cpu_reg env)
          (inferior_tid s) (regval_uninit env) (regcaches s (ti_tid tp)) (-1))))
   \<and> cpu_reg_calls (snd (change_context_to env s tp))
       = cpu_reg_calls s @ map (Pair (inferior_tid s))
           (fs_calls (snd (fetch_registers_cpu (crash_get_cpu_reg env)
              (inferior_tid s) (regval_uninit env) (regcaches s (ti_tid tp)) (-1))))
   \<and> fst (change_context_to env s tp)
       = (case fst (fetch_registers_cpu (crash_get_cpu_reg env)
              (inferior_tid s) (regval_uninit env) (regcaches s (ti_tid tp)) (-1)) of
            Inl e \<Rightarrow> Inl e | Inr u \<Rightarrow> Inr TRUE)"
proof (cases "fetch_registers_cpu (crash_get_cpu_reg env)
          (inferior_tid s) (regval_uninit env) (regcaches s (ti_tid tp)) (-1)")
  case (Pair res fs)
  then show ?thesis
    by (cases res) (simp_all add: change_context_to_def target_fetch_registers_def
        get_thread_regcache_def switch_to_thread_def reinit_frame_cache_cpu_def)
qed

text \<open>
  Claim C4, as amended.  Let a per-CPU notification resolve to a CPU index \<open>cpu\<close> that has
  no thread record.  Then \<^verbatim>\<open>add_thread_silent\<close> is called exactly once, for \<open>cpu\<close>.  If
  it fails, the notification returns \<open>FALSE\<close> and nothing else has changed.  If it succeeds,
  the thread list has grown by the one new record \<open>t\<close> and the notification does not return
  \<open>FALSE\<close>: it goes on to fetch all registers into the cache of \<open>t\<close>.  The cache of
  \<open>t\<close> afterwards is the one the target's \<^verbatim>\<open>fetch_registers\<close> (\<open>F\<close>) produced from
  it, no other cache has changed, and the calls of the read primitive are those of that fetch,
  made for the thread that was active when the notification came: every register from 0 up
  to the first one that does not fit is supplied from its call of the primitive.  The
  notification returns \<open>TRUE\<close>, with \<open>t\<close> the active thread and the frame cache reset
  once, when every register fits the buffer, whereas a register that is too wide makes the
  fetch abort, and the ConfigurationError passes through the notification with the active
  thread and the frame cache as they were.  After any further notifications \<open>ns\<close>, a
  notification resolving to \<open>cpu\<close> finds the same record \<open>t\<close>, creates nothing and
  fetches into the cache of \<open>t\<close> again (\<open>F'\<close>).  The CPU indices of the thread records,
  once distinct, stay distinct: no CPU index ever has two records.
\<close>
theorem lazy_thread_creation:
  assumes "crash_set_thread env task = cpu" and "0 \<le> cpu"
    and "find_thread_ptid s cpu = None"
    and "t = \<lparr>ti_num = highest_thread_num s + 1, ti_tid = cpu\<rparr>"
    and "s' = notifications_cpu (snd (gdb_change_thread_context_cpu env s task)) ns"
    and "crash_set_thread env' task' = cpu"
    and "F = fetch_registers_cpu (crash_get_cpu_reg env) (inferior_tid s) (regval_uninit env)
               (regcaches s cpu) (-1)"
    and "F' = fetch_registers_cpu (crash_get_cpu_reg env') (inferior_tid s') (regval_uninit env')
               (regcaches s' cpu) (-1)"
  shows "add_thread_calls (snd (gdb_change_thread_context_cpu env s task))
           = add_thread_calls s @ [cpu]
       \<and> (add_thread_null env cpu \<longrightarrow>
            gdb_change_thread_context_cpu env s task
              = (Inr FALSE, s\<lparr>add_thread_calls := add_thread_calls s @ [cpu]\<rparr>))
       \<and> (\<not> add_thread_null env cpu \<longrightarrow>
            thread_list (snd (gdb_change_thread_context_cpu env s task)) = thread_list s @ [t]
          \<and> fst (gdb_change_thread_context_cpu env s task) \<noteq> Inr FALSE
          \<and> fst (gdb_change_thread_context_cpu env s task)
               = (case fst F of Inl e \<Rightarrow> Inl e | Inr u \<Rightarrow> Inr TRUE)
          \<and> regcaches (snd (gdb_change_thread_context_cpu env s task))
               = (regcaches s)(cpu := fs_cache (snd F))
          \<and> cpu_reg_calls (snd (gdb_change_thread_context_cpu env s task))
               = cpu_reg_calls s @ map (Pair (inferior_tid s)) (fs_calls (snd F))
          \<and> (\<forall>r. 0 \<le> r \<and> r < gdbarch_num_regs (arch (regcaches s cpu))
                  \<and> (\<forall>j. 0 \<le> j \<and> j \<le> r \<longrightarrow>
                         0 \<le> sint (register_size (arch (regcaches s cpu)) j)
                       \<and> sint (register_size (arch (regcaches s cpu)) j) \<le> 16) \<longrightarrow>
                 (inferior_tid s, r,
                    fst (read_of (crash_get_cpu_reg env (inferior_tid s)) (arch (regcaches s cpu))
                           (regval_uninit env) r),
                    snd (read_of (crash_get_cpu_reg env (inferior_tid s)) (arch (regcaches s cpu))
                           (regval_uninit env) r))
                   \<in> set (cpu_reg_calls (snd (gdb_change_thread_context_cpu env s task)))
               \<and> regs (regcaches (snd (gdb_change_thread_context_cpu env s task)) cpu) r
                   = Some (entry_after_read (arch (regcaches s cpu)) r
                       (fst (read_of (crash_get_cpu_reg env (inferior_tid s))
                               (arch (regcaches s cpu)) (regval_uninit env) r))
                       (snd (read_of (crash_get_cpu_reg env (inferior_tid s))
                               (arch (regcaches s cpu)) (regval_uninit env) r))))
          \<and> ((\<forall>r. 0 \<le> r \<and> r < gdbarch_num_regs (arch (regcaches s cpu)) \<longrightarrow>
                    0 \<le> sint (register_size (arch (regcaches s cpu)) r)
                  \<and> sint (register_size (arch (regcaches s cpu)) r) \<le> 16) \<longrightarrow>
                fst (gdb_change_thread_context_cpu env s task) = Inr TRUE
              \<and> inferior_tid (snd (gdb_change_thread_context_cpu env s task)) = cpu
              \<and> frame_cache_resets (snd (gdb_change_thread_context_cpu env s task))
                   = frame_cache_resets s + 1)
          \<and> ((\<exists>r. 0 \<le> r \<and> r < gdbarch_num_regs (arch (regcaches s cpu))
                  \<and> 16 < sint (register_size (arch (regcaches s cpu)) r)) \<longrightarrow>
                fst (gdb_change_thread_context_cpu env s task) = Inl ConfigurationError
              \<and> inferior_tid (snd (gdb_change_thread_context_cpu env s task)) = inferior_tid s
              \<and> frame_cache_resets (snd (gdb_change_thread_context_cpu env s task))
                   = frame_cache_resets s)
          \<and> find_thread_ptid s' cpu = Some t
          \<and> gdb_change_thread_context_cpu env' s' task' = change_context_to env' s' t
          \<and> thread_list (snd (gdb_change_thread_context_cpu env' s' task')) = thread_list s'
          \<and> add_thread_calls (snd (gdb_change_thread_context_cpu env' s' task'))
              = add_thread_calls s'
          \<and> regcaches (snd (gdb_change_thread_context_cpu env' s' task'))
               = (regcaches s')(cpu := fs_cache (snd F'))
          \<and> cpu_reg_calls (snd (gdb_change_thread_context_cpu env' s' task'))
               = cpu_reg_calls s' @ map (Pair (inferior_tid s')) (fs_calls (snd F')))
       \<and> (distinct (map ti_tid (thread_list s)) \<longrightarrow> distinct (map ti_tid (thread_list s')))"
proof -
  let ?R = "gdb_change_thread_context_cpu env s task"
  let ?s1 = "s\<lparr>thread_list := thread_list s @ [t],
          highest_thread_num := highest_thread_num s + 1,
          add_thread_calls := add_thread_calls s @ [cpu]\<rparr>"
  let ?a = "arch (regcaches s cpu)"
  let ?g = "crash_get_cpu_reg env (inferior_tid s)"
  have run: "?R = change_context_retry env cpu 0 s"
    using assms(1,2) by (simp add: gdb_change_thread_context_cpu_def)
  have fails: "?R = (Inr FALSE, s\<lparr>add_thread_calls := add_thread_calls s @ [cpu]\<rparr>)"
    if "add_thread_null env cpu"
    unfolding run using assms(3) that by (rule change_context_retry_fails)
  have creates: "?R = change_context_to env ?s1 t" if "\<not> add_thread_null env cpu"
    unfolding run assms(4) using assms(3) that by (rule change_context_retry_creates)
  have calls: "add_thread_calls (snd ?R) = add_thread_calls s @ [cpu]"
  proof (cases "add_thread_null env cpu")
    case True
    then show ?thesis by (simp add: fails)
  next
    case False
    then show ?thesis by (simp add: creates change_context_to_frame)
  qed
  have dist: "distinct (map ti_tid (thread_list s'))" if "distinct (map ti_tid (thread_list s))"
  proof -
    have "distinct (map ti_tid (thread_list (snd ?R)))"
      using thread_list_step [of env s task] that by auto
    then show ?thesis unfolding assms(5) by (rule distinct_notifications)
  qed
  have tid: "ti_tid t = cpu" by (simp add: assms(4))
  have l: "thread_list (snd ?R) = thread_list s @ [t]" if ok: "\<not> add_thread_null env cpu"
    by (simp add: creates [OF ok] change_context_to_frame)
  have nf: "fst ?R \<noteq> Inr FALSE" if ok: "\<not> add_thread_null env cpu"
    by (simp add: creates [OF ok] change_context_to_not_FALSE)
  have fetch: "fst ?R = (case fst F of Inl e \<Rightarrow> Inl e | Inr u \<Rightarrow> Inr TRUE)
      \<and> regcaches (snd ?R) = (regcaches s)(cpu := fs_cache (snd F))
      \<and> cpu_reg_calls (snd ?R) = cpu_reg_calls s @ map (Pair (inferior_tid s)) (fs_calls (snd F))"
    if ok: "\<not> add_thread_null env cpu"
    using change_context_to_fetch [of env ?s1 t]
    by (simp add: creates [OF ok] tid assms(7))
  have reads: "(inferior_tid s, r, fst (read_of ?g ?a (regval_uninit env) r),
                    snd (read_of ?g ?a (regval_uninit env) r))
                   \<in> set (cpu_reg_calls (snd ?R))
               \<and> regs (regcaches (snd ?R) cpu) r
                   = Some (entry_after_read ?a r (fst (read_of ?g ?a (regval_uninit env) r))
                       (snd (read_of ?g ?a (regval_uninit env) r)))"
    if ok: "\<not> add_thread_null env cpu"
      and r: "0 \<le> r \<and> r < gdbarch_num_regs ?a
                  \<and> (\<forall>j. 0 \<le> j \<and> j \<le> r \<longrightarrow>
                         0 \<le> sint (register_size ?a j) \<and> sint (register_size ?a j) \<le> 16)" for r
  proof -
    have "(r, fst (read_of ?g ?a (regval_uninit env) r), snd (read_of ?g ?a (regval_uninit env) r))
             \<in> set (fs_calls (snd F))
        \<and> regs (fs_cache (snd F)) r
             = Some (entry_after_read ?a r (fst (read_of ?g ?a (regval_uninit env) r))
                       (snd (read_of ?g ?a (regval_uninit env) r)))"
      unfolding assms(7) fetch_registers_cpu_loop using r by (intro fetch_all_reads) simp_all
    then show ?thesis using fetch [OF ok] by auto
  qed
  have acc: "fst ?R = Inr TRUE \<and> inferior_tid (snd ?R) = cpu
      \<and> frame_cache_resets (snd ?R) = frame_cache_resets s + 1"
    if ok: "\<not> add_thread_null env cpu"
      and fits: "\<forall>r. 0 \<le> r \<and> r < gdbarch_num_regs ?a \<longrightarrow>
                 0 \<le> sint (register_size ?a r) \<and> sint (register_size ?a r) \<le> 16"
  proof -
    have "fst (target_fetch_registers env ?s1 t (-1)) = Inr ()"
      by (rule target_fetch_registers_completes) (use fits in \<open>simp add: tid\<close>)
    then show ?thesis
      using change_context_to_TRUE [of env ?s1 t] by (simp add: creates [OF ok] tid)
  qed
  have ab: "fst ?R = Inl ConfigurationError \<and> inferior_tid (snd ?R) = inferior_tid s
      \<and> frame_cache_resets (snd ?R) = frame_cache_resets s"
    if ok: "\<not> add_thread_null env cpu"
      and wide: "\<exists>r. 0 \<le> r \<and> r < gdbarch_num_regs ?a \<and> 16 < sint (register_size ?a r)"
  proof -
    from wide obtain r where r: "0 \<le> r" "r < gdbarch_num_regs ?a"
      "16 < sint (register_size ?a r)" by blast
    have "fst (target_fetch_registers env ?s1 t (-1)) = Inl ConfigurationError"
      by (rule target_fetch_registers_aborts [of r]) (use r in \<open>simp_all add: tid\<close>)
    then show ?thesis
      using change_context_to_abort [of env ?s1 t ConfigurationError]
      by (simp add: creates [OF ok])
  qed
  have later: "find_thread_ptid s' cpu = Some t
       \<and> gdb_change_thread_context_cpu env' s' task' = change_context_to env' s' t
       \<and> thread_list (snd (gdb_change_thread_context_cpu env' s' task')) = thread_list s'
       \<and> add_thread_calls (snd (gdb_change_thread_context_cpu env' s' task'))
           = add_thread_calls s'
       \<and> regcaches (snd (gdb_change_thread_context_cpu env' s' task'))
           = (regcaches s')(cpu := fs_cache (snd F'))
       \<and> cpu_reg_calls (snd (gdb_change_thread_context_cpu env' s' task'))
           = cpu_reg_calls s' @ map (Pair (inferior_tid s')) (fs_calls (snd F'))"
    if ok: "\<not> add_thread_null env cpu"
  proof -
    have "find_thread_ptid (snd ?R) cpu
        = find_thread_ptid (s\<lparr>thread_list := thread_list s @ [t]\<rparr>) cpu"
      by (rule find_thread_ptid_cong) (simp add: l [OF ok])
    then have "find_thread_ptid (snd ?R) cpu = Some t"
      using assms(3) by (simp add: find_thread_ptid_append tid)
    then have found: "find_thread_ptid s' cpu = Some t"
      unfolding assms(5) by (rule find_thread_ptid_notifications)
    have again: "gdb_change_thread_context_cpu env' s' task' = change_context_to env' s' t"
      using assms(2,6) found
      by (simp add: gdb_change_thread_context_cpu_def change_context_retry_found)
    show ?thesis
      using found again change_context_to_fetch [of env' s' t]
      by (simp add: change_context_to_frame tid assms(8))
  qed
  show ?thesis
    apply (intro conjI impI)
    subgoal by (rule calls)
    subgoal by (rule fails)
    subgoal by (rule l)
    subgoal by (rule nf)
    subgoal using fetch by blast
    subgoal using fetch by blast
    subgoal using fetch by blast
    subgoal using reads by blast
    subgoal using acc by blast
    subgoal using acc by blast
    subgoal using acc by blast
    subgoal using ab by blast
    subgoal using ab by blast
    subgoal using ab by blast
    subgoal using later by blast
    subgoal using later by blast
    subgoal using later by blast
    subgoal using later by blast
    subgoal using later by blast
    subgoal using later by blast
    subgoal by (rule dist)
    done
qed

text \<open>
  The theorem in the example environment, with caches of \<open>arch_fits\<close>: the task handle 5
  resolves to CPU 4, for which a record is created, and the handle 10 to CPU 9, for which
  creation fails.
\<close>

theorem lazy_thread_creation_witness:
  "crash_set_thread env_example 5 = 4 \<and> (0::int) \<le> 4
   \<and> find_thread_ptid (state_example arch_fits) 4 = None
   \<and> \<not> add_thread_null env_example 4
   \<and> crash_set_thread env_example 10 = 9
   \<and> find_thread_ptid (state_example arch_fits) 9 = None
   \<and> add_thread_null env_example 9
   \<and> distinct (map ti_tid (thread_list (state_example arch_fits)))
   \<and> add_thread_calls (snd (gdb_change_thread_context_cpu env_example (state_example arch_fits) 5))
       = add_thread_calls (state_example arch_fits) @ [4]
   \<and> thread_list (snd (gdb_change_thread_context_cpu env_example (state_example arch_fits) 5))
       = thread_list (state_example arch_fits) @ [\<lparr>ti_num = 3, ti_tid = 4\<rparr>]
   \<and> fst (gdb_change_thread_context_cpu env_example (state_example arch_fits) 5) = Inr TRUE
   \<and> inferior_tid (snd (gdb_change_thread_context_cpu env_example (state_example arch_fits) 5)) = 4
   \<and> regs (regcaches (snd (gdb_change_thread_context_cpu env_example (state_example arch_fits) 5)) 4) 0
       = Some (entry_after_read (arch (regcaches (state_example arch_fits) 4)) 0
           (fst (read_of (crash_get_cpu_reg env_example (inferior_tid (state_example arch_fits)))
                   (arch (regcaches (state_example arch_fits) 4)) (regval_uninit env_example) 0))
           (snd (read_of (crash_get_cpu_reg env_example (inferior_tid (state_example arch_fits)))
                   (arch (regcaches (state_example arch_fits) 4)) (regval_uninit env_example) 0)))
   \<and> find_thread_ptid
        (notifications_cpu (snd (gdb_change_thread_context_cpu env_example (state_example arch_fits) 5))
           [(env_example, 2), (env_example, 5)]) 4
       = Some \<lparr>ti_num = 3, ti_tid = 4\<rparr>
   \<and> distinct (map ti_tid (thread_list
        (notifications_cpu (snd (gdb_change_thread_context_cpu env_example (state_example arch_fits) 5))
           [(env_example, 2), (env_example, 5)])))
   \<and> gdb_change_thread_context_cpu env_example (state_example arch_fits) 10
       = (Inr FALSE, (state_example arch_fits)
            \<lparr>add_thread_calls := add_thread_calls (state_example arch_fits) @ [9]\<rparr>)"
proof -
  have h1: "crash_set_thread env_example 5 = 4" by (simp add: env_example_def)
  have h2: "(0::int) \<le> 4" by simp
  have h3: "find_thread_ptid (state_example arch_fits) 4 = None"
    by (simp add: find_thread_ptid_def state_example_def)
  have h4: "\<lparr>ti_num = 3, ti_tid = 4\<rparr>
      = \<lparr>ti_num = highest_thread_num (state_example arch_fits) + 1, ti_tid = 4\<rparr>"
    by (simp add: state_example_def)
  have h5: "\<not> add_thread_null env_example 4" by (simp add: env_example_def)
  have h6: "\<forall>r. 0 \<le> r \<and> r < gdbarch_num_regs (arch (regcaches (state_example arch_fits) 4)) \<longrightarrow>
                0 \<le> sint (register_size (arch (regcaches (state_example arch_fits) 4)) r)
              \<and> sint (register_size (arch (regcaches (state_example arch_fits) 4)) r) \<le> 16"
    by (simp add: state_example_def empty_regcache_def arch_fits_def)
  have h7: "distinct (map ti_tid (thread_list (state_example arch_fits)))"
    by (simp add: state_example_def)
  have h8: "0 \<le> (0::int) \<and> 0 < gdbarch_num_regs (arch (regcaches (state_example arch_fits) 4))
      \<and> (\<forall>j. 0 \<le> j \<and> j \<le> 0 \<longrightarrow>
             0 \<le> sint (register_size (arch (regcaches (state_example arch_fits) 4)) j)
           \<and> sint (register_size (arch (regcaches (state_example arch_fits) 4)) j) \<le> 16)"
    by (simp add: state_example_def empty_regcache_def arch_fits_def)
  have g1: "crash_set_thread env_example 10 = 9" by (simp add: env_example_def)
  have g2: "(0::int) \<le> 9" by simp
  have g3: "find_thread_ptid (state_example arch_fits) 9 = None"
    by (simp add: find_thread_ptid_def state_example_def)
  have g5: "add_thread_null env_example 9" by (simp add: env_example_def)
  note a = lazy_thread_creation [OF h1 h2 h3 h4 refl h1 refl refl,
        of "[(env_example, 2), (env_example, 5)]"]
  note b = lazy_thread_creation [OF g1 g2 g3 refl refl g1 refl refl, of "[]"]
  have c1: "add_thread_calls (snd (gdb_change_thread_context_cpu env_example
                (state_example arch_fits) 5)) = add_thread_calls (state_example arch_fits) @ [4]"
    using a by blast
  have c2: "thread_list (snd (gdb_change_thread_context_cpu env_example (state_example arch_fits) 5))
       = thread_list (state_example arch_fits) @ [\<lparr>ti_num = 3, ti_tid = 4\<rparr>]"
    using a h5 by blast
  have c3: "fst (gdb_change_thread_context_cpu env_example (state_example arch_fits) 5) = Inr TRUE
      \<and> inferior_tid (snd (gdb_change_thread_context_cpu env_example
            (state_example arch_fits) 5)) = 4"
    using a h5 h6 by blast
  have c4: "regs (regcaches (snd (gdb_change_thread_context_cpu env_example
                (state_example arch_fits) 5)) 4) 0
       = Some (entry_after_read (arch (regcaches (state_example arch_fits) 4)) 0
           (fst (read_of (crash_get_cpu_reg env_example (inferior_tid (state_example arch_fits)))
                   (arch (regcaches (state_example arch_fits) 4)) (regval_uninit env_example) 0))
           (snd (read_of (crash_get_cpu_reg env_example (inferior_tid (state_example arch_fits)))
                   (arch (regcaches (state_example arch_fits) 4)) (regval_uninit env_example) 0)))"
    using a h5 h8 by blast
  have c5: "find_thread_ptid
        (notifications_cpu (snd (gdb_change_thread_context_cpu env_example (state_example arch_fits) 5))
           [(env_example, 2), (env_example, 5)]) 4
       = Some \<lparr>ti_num = 3, ti_tid = 4\<rparr>"
    using a h5 by blast
  have c6: "distinct (map ti_tid (thread_list
        (notifications_cpu (snd (gdb_change_thread_context_cpu env_example (state_example arch_fits) 5))
           [(env_example, 2), (env_example, 5)])))"
    using a h7 by blast
  have c7: "gdb_change_thread_context_cpu env_example (state_example arch_fits) 10
       = (Inr FALSE, (state_example arch_fits)
            \<lparr>add_thread_calls := add_thread_calls (state_example arch_fits) @ [9]\<rparr>)"
    using b g5 by blast
  show ?thesis using h1 h2 h3 h5 h7 g1 g3 g5 c1 c2 c3 c4 c5 c6 c7 by blast
qed

text \<open>
  Against C4 as stated: with caches of \<open>arch_wide\<close> the record for CPU 4 is created, yet the
  notification is not accepted; it ends in the ConfigurationError of the register fetch, with
  the active thread and the frame cache as before and the new record in the thread list.
\<close>

theorem lazy_thread_creation_counterexample:
  "crash_set_thread env_example 5 = 4
   \<and> find_thread_ptid (state_example arch_wide) 4 = None
   \<and> fst (add_thread_silent env_example (state_example arch_wide) 4)
       = Some \<lparr>ti_num = 3, ti_tid = 4\<rparr>
   \<and> fst (gdb_change_thread_context_cpu env_example (state_example arch_wide) 5)
       = Inl ConfigurationError
   \<and> Inl ConfigurationError \<noteq> (Inr TRUE :: exn + int)
   \<and> inferior_tid (snd (gdb_change_thread_context_cpu env_example (state_example arch_wide) 5)) = 0
   \<and> frame_cache_resets (snd (gdb_change_thread_context_cpu env_example (state_example arch_wide) 5))
       = frame_cache_resets (state_example arch_wide)
   \<and> thread_list (snd (gdb_change_thread_context_cpu env_example (state_example arch_wide) 5))
       = [\<lparr>ti_num = 1, ti_tid = 0\<rparr>, \<lparr>ti_num = 2, ti_tid = 1\<rparr>, \<lparr>ti_num = 3, ti_tid = 4\<rparr>]"
  by (simp add: gdb_change_thread_context_cpu_def change_context_retry.simps
      find_thread_ptid_def add_thread_silent_def change_context_to_def
      target_fetch_registers_def get_thread_regcache_def fetch_registers_cpu_def
      fetch_loop_cpu.simps fetch_body_def exceeds_regval_iff raw_supply_def
      env_example_def state_example_def empty_regcache_def arch_wide_def get_reg_example_def
      Let_def)

end
